theory Spec2Isabelle
  imports Main "HOL-Library.Monad_Syntax"
begin

text \<open>
  A model of the class \<^verbatim>\<open>GrafoDisperso\<close> (\<^verbatim>\<open>include/GrafoDisperso.h\<close>): a directed graph
  loaded from a file of pairs into three CSR arrays, its degree and neighbour queries, and
  its breadth-first and depth-first traversals. The definitions keep the names of the
  source; the console output of the methods is left out.
\<close>

section \<open>Arrays and counted loops\<close>

text \<open>
  The program works on raw heap arrays (\<^verbatim>\<open>new int[n]\<close>) indexed by \<^verbatim>\<open>int\<close>.
  An array is modelled as a list, an index as an \<open>int\<close>, and an access outside the
  allocation (undefined behaviour in C++) as the value \<open>None\<close>: every function below that
  touches an array returns an \<open>option\<close>, and \<open>None\<close> means that the run left the
  defined behaviour of the language.
  A fresh \<^verbatim>\<open>new int[n]\<close> is \<open>replicate (nat n) 0\<close>; the program never reads an
  entry before writing it.

  An \<^verbatim>\<open>int\<close> has 32 bits. The load computes four numbers that no array size bounds:
  the count of the pairs, \<^verbatim>\<open>nodoMaximo + 1\<close>, the doubled capacity of a row and
  \<^verbatim>\<open>numNodos + 1\<close>. Each of them goes through \<open>suma\<close> or \<open>producto\<close>, and a result
  outside the range of \<^verbatim>\<open>int\<close> is \<open>None\<close>: signed overflow is undefined behaviour, and
  where the value wraps around, the \<^verbatim>\<open>new[]\<close> that follows is asked for a negative
  size and throws, so the call does not return. Every other counter and index of the
  program is bounded by the number of pairs or by the greatest id plus one, hence it is in
  range whenever these are, and it is computed on \<open>int\<close> directly.
  An allocation never fails: the size of the memory is not modelled.
\<close>

definition INT_MAX :: int where
  "INT_MAX = 2147483647"

definition suma :: "int \<Rightarrow> int \<Rightarrow> int option" where
  "suma a b = (if - INT_MAX - 1 \<le> a + b \<and> a + b \<le> INT_MAX then Some (a + b) else None)"

definition producto :: "int \<Rightarrow> int \<Rightarrow> int option" where
  "producto a b = (if - INT_MAX - 1 \<le> a * b \<and> a * b \<le> INT_MAX then Some (a * b) else None)"

definition leer :: "'a list \<Rightarrow> int \<Rightarrow> 'a option" where
  "leer a i = (if 0 \<le> i \<and> i < int (length a) then Some (a ! nat i) else None)"

definition escribir :: "'a list \<Rightarrow> int \<Rightarrow> 'a \<Rightarrow> 'a list option" where
  "escribir a i v = (if 0 \<le> i \<and> i < int (length a) then Some (a[nat i := v]) else None)"

text \<open>\<^verbatim>\<open>for (int i = i0; i < n; i++) body\<close>, the body acting on the loop's state.\<close>

function bucle_for :: "int \<Rightarrow> int \<Rightarrow> (int \<Rightarrow> 's \<Rightarrow> 's option) \<Rightarrow> 's \<Rightarrow> 's option" where
  "bucle_for i n cuerpo s =
     (if i < n then
        (case cuerpo i s of None \<Rightarrow> None | Some s' \<Rightarrow> bucle_for (i + 1) n cuerpo s')
      else Some s)"
  by pat_completeness auto
termination
  by (relation "measure (\<lambda>(i, n, cuerpo, s). nat (n - i))") auto

declare bucle_for.simps [simp del]

text \<open>The copy loop \<^verbatim>\<open>for (int i = 0; i < n; i++) dst[i] = src[desde + i];\<close>\<close>

definition copiar :: "int list \<Rightarrow> int \<Rightarrow> int \<Rightarrow> int list \<Rightarrow> int list option" where
  "copiar src desde n dst0 =
     bucle_for 0 n (\<lambda>i dst. do { x \<leftarrow> leer src (desde + i); escribir dst i x }) dst0"

section \<open>The graph in CSR form\<close>

record grafo =
  numNodos :: int
  numAristas :: int
  esDirigido :: bool
  values_csr :: "int list"
  column_indices :: "int list"
  row_ptr :: "int list"

text \<open>The constructor \<^verbatim>\<open>GrafoDisperso()\<close>; a null pointer is the empty array.\<close>

definition GrafoDisperso :: grafo where
  "GrafoDisperso = \<lparr>numNodos = 0, numAristas = 0, esDirigido = True,
     values_csr = [], column_indices = [], row_ptr = []\<rparr>"

subsection \<open>Loading\<close>

text \<open>
  \<^verbatim>\<open>cargarDatos\<close> (lines 124 to 209) and \<^verbatim>\<open>construirCSR\<close> (lines 214 to 237).
  A file is \<open>None\<close> when it cannot be opened, and otherwise the pairs that
  \<^verbatim>\<open>while (archivo >> origen >> destino)\<close> yields, in order, until the extraction fails.
  Both passes read the same pairs.
\<close>

type_synonym archivo = "(int \<times> int) list option"

fun primera_pasada :: "(int \<times> int) list \<Rightarrow> int \<Rightarrow> int \<Rightarrow> (int \<times> int) option" where
  "primera_pasada [] nodoMaximo contadorAristas = Some (nodoMaximo, contadorAristas)"
| "primera_pasada ((origen, destino) # resto) nodoMaximo contadorAristas =
     (let nodoMaximo1 = (if origen > nodoMaximo then origen else nodoMaximo);
          nodoMaximo2 = (if destino > nodoMaximo1 then destino else nodoMaximo1)
      in case suma contadorAristas 1 of
           None \<Rightarrow> None
         | Some contadorAristas' \<Rightarrow> primera_pasada resto nodoMaximo2 contadorAristas')"

record adyacencia =
  listaAdyacencia :: "int list list"
  contadores :: "int list"
  capacidades :: "int list"

text \<open>
  The body of the second \<^verbatim>\<open>while\<close>: \<open>expandir\<close> doubles the row of \<open>origen\<close> when
  it is full, then \<open>agregar\<close> appends \<open>destino\<close> to it.
\<close>

definition expandir :: "adyacencia \<Rightarrow> int \<Rightarrow> adyacencia option" where
  "expandir ady origen = do {
     c \<leftarrow> leer (contadores ady) origen;
     cap \<leftarrow> leer (capacidades ady) origen;
     if c \<ge> cap then do {
       nuevaCapacidad \<leftarrow> producto cap 2;
       fila \<leftarrow> leer (listaAdyacencia ady) origen;
       nuevoArray \<leftarrow> copiar fila 0 c (replicate (nat nuevaCapacidad) 0);
       lista \<leftarrow> escribir (listaAdyacencia ady) origen nuevoArray;
       caps \<leftarrow> escribir (capacidades ady) origen nuevaCapacidad;
       Some (ady\<lparr>listaAdyacencia := lista, capacidades := caps\<rparr>)
     } else Some ady
   }"

definition agregar :: "adyacencia \<Rightarrow> int \<times> int \<Rightarrow> adyacencia option" where
  "agregar ady par = (case par of (origen, destino) \<Rightarrow> do {
     ady1 \<leftarrow> expandir ady origen;
     c \<leftarrow> leer (contadores ady1) origen;
     fila \<leftarrow> leer (listaAdyacencia ady1) origen;
     fila' \<leftarrow> escribir fila c destino;
     lista \<leftarrow> escribir (listaAdyacencia ady1) origen fila';
     conts \<leftarrow> escribir (contadores ady1) origen (c + 1);
     Some (ady1\<lparr>listaAdyacencia := lista, contadores := conts\<rparr>)
   })"

fun segunda_pasada :: "(int \<times> int) list \<Rightarrow> adyacencia \<Rightarrow> adyacencia option" where
  "segunda_pasada [] ady = Some ady"
| "segunda_pasada (par # resto) ady =
     (case agregar ady par of None \<Rightarrow> None | Some ady' \<Rightarrow> segunda_pasada resto ady')"

text \<open>
  The body of the inner loop of the fill, for the entry \<open>j\<close> of the row \<open>i\<close>: the state is
  \<open>(values, column_indices, indice)\<close>.
\<close>

definition llenar_fila :: "int list list \<Rightarrow> int \<Rightarrow> int \<Rightarrow> int list \<times> int list \<times> int
    \<Rightarrow> (int list \<times> int list \<times> int) option" where
  "llenar_fila lista i j s = (case s of (vals, cols, indice) \<Rightarrow> do {
     vals' \<leftarrow> escribir vals indice 1;
     fila \<leftarrow> leer lista i;
     x \<leftarrow> leer fila j;
     cols' \<leftarrow> escribir cols indice x;
     Some (vals', cols', indice + 1)
   })"

definition construirCSR :: "grafo \<Rightarrow> int list list \<Rightarrow> int list \<Rightarrow> grafo option" where
  "construirCSR g lista conts = do {
     let values0 = replicate (nat (numAristas g)) 0;
     let column_indices0 = replicate (nat (numAristas g)) 0;
     tam \<leftarrow> suma (numNodos g) 1;
     let row_ptr0 = replicate (nat tam) 0;
     row_ptr1 \<leftarrow> escribir row_ptr0 0 0;
     row_ptr2 \<leftarrow> bucle_for 0 (numNodos g)
        (\<lambda>i rp. do { a \<leftarrow> leer rp i; c \<leftarrow> leer conts i; escribir rp (i + 1) (a + c) }) row_ptr1;
     (vals, cols, indice) \<leftarrow> bucle_for 0 (numNodos g)
        (\<lambda>i s. do { c \<leftarrow> leer conts i; bucle_for 0 c (llenar_fila lista i) s })
        (values0, column_indices0, 0);
     Some (g\<lparr>values_csr := vals, column_indices := cols, row_ptr := row_ptr2\<rparr>)
   }"

text \<open>
  \<open>cargarDatos\<close> returns the \<^verbatim>\<open>bool\<close> of the source together with the object after
  the call. The estimate of the memory that it prints before \<^verbatim>\<open>return true\<close> belongs to
  the console output and is left out with it.
\<close>

definition cargarDatos :: "grafo \<Rightarrow> archivo \<Rightarrow> (bool \<times> grafo) option" where
  "cargarDatos g arch = (case arch of
     None \<Rightarrow> Some (False, g)
   | Some pares \<Rightarrow> do {
       (nodoMaximo, contadorAristas) \<leftarrow> primera_pasada pares (- 1) 0;
       n \<leftarrow> suma nodoMaximo 1;
       let g1 = g\<lparr>numNodos := n, numAristas := contadorAristas\<rparr>;
       let ady0 = \<lparr>listaAdyacencia = replicate (nat (numNodos g1)) (replicate 10 0),
                   contadores = replicate (nat (numNodos g1)) 0,
                   capacidades = replicate (nat (numNodos g1)) 10\<rparr>;
       ady \<leftarrow> segunda_pasada pares ady0;
       g2 \<leftarrow> construirCSR g1 (listaAdyacencia ady) (contadores ady);
       Some (True, g2)
     })"

subsection \<open>Queries\<close>

text \<open>
  \<^verbatim>\<open>obtenerGradoSalida\<close>, \<^verbatim>\<open>obtenerGradoEntrada\<close>, \<^verbatim>\<open>getVecinos\<close> and
  \<^verbatim>\<open>obtenerNodoMayorGrado\<close> (lines 376 to 443).
\<close>

definition obtenerGradoSalida :: "grafo \<Rightarrow> int \<Rightarrow> int option" where
  "obtenerGradoSalida g nodo =
     (if nodo < 0 \<or> nodo \<ge> numNodos g then Some 0
      else do {
        b \<leftarrow> leer (row_ptr g) (nodo + 1);
        a \<leftarrow> leer (row_ptr g) nodo;
        Some (b - a)
      })"

definition obtenerGradoEntrada :: "grafo \<Rightarrow> int \<Rightarrow> int option" where
  "obtenerGradoEntrada g nodo =
     (if nodo < 0 \<or> nodo \<ge> numNodos g then Some 0
      else bucle_for 0 (numAristas g)
             (\<lambda>i contador. do {
                c \<leftarrow> leer (column_indices g) i;
                Some (if c = nodo then contador + 1 else contador) })
             0)"

text \<open>
  The out-parameters \<^verbatim>\<open>(vecinos, cantidadVecinos)\<close> are returned as a pair: the array that
  was allocated (the empty list when none is) and the count.
\<close>

definition getVecinos :: "grafo \<Rightarrow> int \<Rightarrow> (int list \<times> int) option" where
  "getVecinos g nodo =
     (if nodo < 0 \<or> nodo \<ge> numNodos g then Some ([], 0)
      else do {
        inicioVecinos \<leftarrow> leer (row_ptr g) nodo;
        finVecinos \<leftarrow> leer (row_ptr g) (nodo + 1);
        let cantidadVecinos = finVecinos - inicioVecinos;
        if cantidadVecinos > 0 then do {
          vecinos \<leftarrow> copiar (column_indices g) inicioVecinos cantidadVecinos
                       (replicate (nat cantidadVecinos) 0);
          Some (vecinos, cantidadVecinos)
        } else Some ([], cantidadVecinos)
      })"

text \<open>The result is \<open>(nodoMaximo, gradoMaximo)\<close>: the returned node and the out-parameter.\<close>

definition obtenerNodoMayorGrado :: "grafo \<Rightarrow> (int \<times> int) option" where
  "obtenerNodoMayorGrado g =
     bucle_for 0 (numNodos g)
       (\<lambda>i (nodoMaximo, gradoMaximo). do {
          grado \<leftarrow> obtenerGradoSalida g i;
          Some (if grado > gradoMaximo then (i, grado) else (nodoMaximo, gradoMaximo)) })
       (- 1, 0)"

section \<open>Traversals\<close>

subsection \<open>Breadth first\<close>

text \<open>\<^verbatim>\<open>BFS\<close> (lines 242 to 318); the state is the local arrays and indices of the method.\<close>

record bfs_estado =
  marcados :: "bool list"
  distancias :: "int list"
  cola :: "int list"
  resultado :: "int list"
  frente :: int
  final :: int
  contador :: int

text \<open>The body of the loop over the neighbours of the node taken from the queue.\<close>

definition bfs_vecino :: "grafo \<Rightarrow> int \<Rightarrow> int \<Rightarrow> bfs_estado \<Rightarrow> bfs_estado option" where
  "bfs_vecino g distanciaActual i st = do {
     vecino \<leftarrow> leer (column_indices g) i;
     m \<leftarrow> leer (marcados st) vecino;
     if \<not> m then do {
       marcados' \<leftarrow> escribir (marcados st) vecino True;
       distancias' \<leftarrow> escribir (distancias st) vecino (distanciaActual + 1);
       cola' \<leftarrow> escribir (cola st) (final st) vecino;
       resultado' \<leftarrow> escribir (resultado st) (contador st) vecino;
       Some (st\<lparr>marcados := marcados', distancias := distancias', cola := cola',
                resultado := resultado', final := final st + 1, contador := contador st + 1\<rparr>)
     } else Some st
   }"

text \<open>
  The \<^verbatim>\<open>while (frente < final)\<close> loop. It terminates because \<open>frente\<close> grows at
  every round and a read of \<open>cola\<close> beyond its allocation stops the run.
\<close>

function bfs_bucle :: "grafo \<Rightarrow> int \<Rightarrow> bfs_estado \<Rightarrow> bfs_estado option" where
  "bfs_bucle g profundidadMax st =
     (if frente st < final st then do {
        nodoActual \<leftarrow> leer (cola st) (frente st);
        let st1 = st\<lparr>frente := frente st + 1\<rparr>;
        distanciaActual \<leftarrow> leer (distancias st1) nodoActual;
        if profundidadMax \<noteq> - 1 \<and> distanciaActual \<ge> profundidadMax
        then bfs_bucle g profundidadMax st1
        else do {
          inicioVecinos \<leftarrow> leer (row_ptr g) nodoActual;
          finVecinos \<leftarrow> leer (row_ptr g) (nodoActual + 1);
          st2 \<leftarrow> bucle_for inicioVecinos finVecinos (bfs_vecino g distanciaActual) st1;
          bfs_bucle g profundidadMax st2
        }
      } else Some st)"
  by pat_completeness auto
termination
proof (relation "measure (\<lambda>(g, p, st). nat (int (length (cola st)) - frente st))", goal_cases)
  case 1
  show ?case by simp
next
  case (2 g profundidadMax st nodoActual st1 distanciaActual)
  then show ?case by (auto simp: leer_def split: if_splits)
next
  case (3 g profundidadMax st nodoActual st1 distanciaActual inicioVecinos finVecinos st2)
  have pres: "length (cola s') = length (cola s) \<and> frente s' = frente s"
    if "bucle_for i n (bfs_vecino g d) s = Some s'" for i n d s s'
    using that
  proof (induction i n "bfs_vecino g d" s rule: bucle_for.induct)
    case (1 i n s)
    show ?case
    proof (cases "i < n")
      case True
      then obtain t where t: "bfs_vecino g d i s = Some t"
        and r: "bucle_for (i + 1) n (bfs_vecino g d) t = Some s'"
        using "1.prems" by (subst (asm) bucle_for.simps) (auto split: option.splits)
      from t have "length (cola t) = length (cola s) \<and> frente t = frente s"
        by (auto simp: bfs_vecino_def escribir_def split: Option.bind_splits if_splits)
      with "1.hyps"[OF True t r] show ?thesis by simp
    next
      case False
      with "1.prems" show ?thesis by (subst (asm) bucle_for.simps) simp
    qed
  qed
  from 3 pres[of inicioVecinos finVecinos distanciaActual st1 st2] show ?case
    by (auto simp: leer_def split: if_splits)
qed

declare bfs_bucle.simps [simp del]

text \<open>
  The out-parameters \<^verbatim>\<open>(visitados, cantidadVisitados)\<close> are returned as a pair, as in
  \<open>getVecinos\<close>. The initialisation loop over \<open>marcados\<close> and \<open>distancias\<close> is the
  \<open>replicate\<close> of its value.
\<close>

definition BFS :: "grafo \<Rightarrow> int \<Rightarrow> int \<Rightarrow> (int list \<times> int) option" where
  "BFS g nodoInicio profundidadMax =
     (if nodoInicio < 0 \<or> nodoInicio \<ge> numNodos g then Some ([], 0)
      else do {
        let marcados0 = replicate (nat (numNodos g)) False;
        let distancias0 = replicate (nat (numNodos g)) (- 1);
        let cola0 = replicate (nat (numNodos g)) 0;
        let resultado0 = replicate (nat (numNodos g)) 0;
        cola1 \<leftarrow> escribir cola0 0 nodoInicio;
        marcados1 \<leftarrow> escribir marcados0 nodoInicio True;
        distancias1 \<leftarrow> escribir distancias0 nodoInicio 0;
        resultado1 \<leftarrow> escribir resultado0 0 nodoInicio;
        st \<leftarrow> bfs_bucle g profundidadMax
               \<lparr>marcados = marcados1, distancias = distancias1, cola = cola1,
                resultado = resultado1, frente = 0, final = 1, contador = 1\<rparr>;
        salida \<leftarrow> copiar (resultado st) 0 (contador st) (replicate (nat (contador st)) 0);
        Some (salida, contador st)
      })"

subsection \<open>Depth first\<close>

text \<open>\<^verbatim>\<open>DFS\<close> (lines 323 to 352) and \<^verbatim>\<open>DFSRecursivo\<close> (lines 357 to 371).\<close>

record dfs_estado =
  visitados :: "bool list"
  resultado_dfs :: "int list"
  contador_dfs :: int

text \<open>The number of nodes not yet visited: what the recursion consumes.\<close>

definition pendientes :: "bool list \<Rightarrow> nat" where
  "pendientes vs = length (filter Not vs)"

text \<open>
  \<open>DFSRecursivo\<close> and its loop over the neighbours, which passes on the state that each
  recursive call returns.
\<close>

function DFSRecursivo :: "grafo \<Rightarrow> int \<Rightarrow> dfs_estado \<Rightarrow> dfs_estado option"
  and dfs_vecinos :: "grafo \<Rightarrow> int \<Rightarrow> int \<Rightarrow> dfs_estado \<Rightarrow> dfs_estado option"
where
  "DFSRecursivo g nodoActual st = do {
     visitados' \<leftarrow> escribir (visitados st) nodoActual True;
     resultado' \<leftarrow> escribir (resultado_dfs st) (contador_dfs st) nodoActual;
     inicioVecinos \<leftarrow> leer (row_ptr g) nodoActual;
     finVecinos \<leftarrow> leer (row_ptr g) (nodoActual + 1);
     dfs_vecinos g inicioVecinos finVecinos
       (st\<lparr>visitados := visitados', resultado_dfs := resultado',
           contador_dfs := contador_dfs st + 1\<rparr>)
   }"
| "dfs_vecinos g i finVecinos st =
     (if i < finVecinos then do {
        vecino \<leftarrow> leer (column_indices g) i;
        m \<leftarrow> leer (visitados st) vecino;
        if \<not> m then do {
          st' \<leftarrow> DFSRecursivo g vecino st;
          dfs_vecinos g (i + 1) finVecinos st'
        } else dfs_vecinos g (i + 1) finVecinos st
      } else Some st)"
  by pat_completeness auto
termination
proof -
  have upd_le: "pendientes (vs[k := True]) \<le> pendientes vs" for vs k
    unfolding pendientes_def
  proof (induction vs arbitrary: k)
    case Nil
    show ?case by simp
  next
    case (Cons v vs)
    from Cons[of "k - 1"] show ?case by (cases k) auto
  qed
  have upd_less: "pendientes (vs[k := True]) < pendientes vs"
    if "k < length vs" "\<not> vs ! k" for vs k
    using that unfolding pendientes_def
  proof (induction vs arbitrary: k)
    case Nil
    then show ?case by simp
  next
    case (Cons v vs)
    show ?case
    proof (cases k)
      case 0
      with Cons.prems show ?thesis by simp
    next
      case (Suc j)
      with Cons.prems Cons.IH[of j] show ?thesis by auto
    qed
  qed
  have mono:
    "DFSRecursivo_dfs_vecinos_dom (Inl (g, u, st)) \<Longrightarrow> DFSRecursivo g u st = Some st' \<Longrightarrow>
       pendientes (visitados st') \<le> pendientes ((visitados st)[nat u := True])"
    "DFSRecursivo_dfs_vecinos_dom (Inr (g, i, n, st)) \<Longrightarrow> dfs_vecinos g i n st = Some st'' \<Longrightarrow>
       pendientes (visitados st'') \<le> pendientes (visitados st)"
    for g u i n st st' st''
  proof (induction g u st and g i n st arbitrary: st' and st''
      rule: DFSRecursivo_dfs_vecinos.pinduct)
    case (1 g nodoActual st)
    then show ?case
      by (auto simp: DFSRecursivo.psimps escribir_def split: Option.bind_splits if_splits)
  next
    case (2 g i finVecinos st)
    show ?case
    proof (cases "i < finVecinos")
      case False
      with 2 show ?thesis by (simp add: dfs_vecinos.psimps)
    next
      case True
      with "2.prems" "2.hyps" obtain vecino m where v: "leer (column_indices g) i = Some vecino"
        and m: "leer (visitados st) vecino = Some m"
        by (auto simp: dfs_vecinos.psimps split: Option.bind_splits)
      show ?thesis
      proof (cases m)
        case True
        with \<open>i < finVecinos\<close> v m "2.prems" "2.hyps"
        have "dfs_vecinos g (i + 1) finVecinos st = Some st''"
          by (simp add: dfs_vecinos.psimps)
        from "2.IH"(3)[OF \<open>i < finVecinos\<close> v m _ this] True show ?thesis by simp
      next
        case False
        with \<open>i < finVecinos\<close> v m "2.prems" "2.hyps" obtain st1 where
          a: "DFSRecursivo g vecino st = Some st1"
          and b: "dfs_vecinos g (i + 1) finVecinos st1 = Some st''"
          by (auto simp: dfs_vecinos.psimps split: Option.bind_splits)
        from "2.IH"(1)[OF \<open>i < finVecinos\<close> v m _ a] False
        have "pendientes (visitados st1) \<le> pendientes ((visitados st)[nat vecino := True])"
          by simp
        moreover from "2.IH"(2)[OF \<open>i < finVecinos\<close> v m _ a b] False
        have "pendientes (visitados st'') \<le> pendientes (visitados st1)" by simp
        ultimately show ?thesis using upd_le[of "visitados st" "nat vecino"] by linarith
      qed
    qed
  qed
  show ?thesis
  proof (relation "measures [
      (\<lambda>x. case x of Inl (g, u, st) \<Rightarrow> pendientes ((visitados st)[nat u := True])
                    | Inr (g, i, n, st) \<Rightarrow> pendientes (visitados st)),
      (\<lambda>x. case x of Inl _ \<Rightarrow> 1 | Inr _ \<Rightarrow> 0),
      (\<lambda>x. case x of Inl _ \<Rightarrow> 0 | Inr (g, i, n, st) \<Rightarrow> nat (n - i))]", goal_cases)
    case 1
    show ?case by simp
  next
    case (2 g nodoActual st visitados' resultado' inicioVecinos finVecinos)
    then show ?case by (auto simp: escribir_def split: if_splits)
  next
    case (3 g i finVecinos st vecino m)
    then show ?case
      using upd_less[of "nat vecino" "visitados st"]
      by (auto simp: leer_def split: if_splits)
  next
    case (4 g i finVecinos st vecino m st')
    then show ?case
      using mono(1)[of g vecino st st'] upd_le[of "visitados st" "nat vecino"]
      by auto
  next
    case (5 g i finVecinos st vecino m)
    then show ?case by auto
  qed
qed

declare DFSRecursivo.simps [simp del] dfs_vecinos.simps [simp del]

definition DFS :: "grafo \<Rightarrow> int \<Rightarrow> (int list \<times> int) option" where
  "DFS g nodoInicio =
     (if nodoInicio < 0 \<or> nodoInicio \<ge> numNodos g then Some ([], 0)
      else do {
        let marcados0 = replicate (nat (numNodos g)) False;
        let resultado0 = replicate (nat (numNodos g)) 0;
        st \<leftarrow> DFSRecursivo g nodoInicio
               \<lparr>visitados = marcados0, resultado_dfs = resultado0, contador_dfs = 0\<rparr>;
        salida \<leftarrow> copiar (resultado_dfs st) 0 (contador_dfs st)
                    (replicate (nat (contador_dfs st)) 0);
        Some (salida, contador_dfs st)
      })"

section \<open>What a load builds\<close>

text \<open>
  The description of the CSR arrays in terms of the pairs of the file: \<open>fila_de ps k\<close> is
  the row of node \<open>k\<close> (the destinations of its pairs, in file order), \<open>filas_hasta ps k\<close>
  the rows of the nodes below \<open>k\<close> one after the other, and \<open>nodos_de ps\<close> the greatest id
  plus one.
\<close>

definition fila_de :: "(int \<times> int) list \<Rightarrow> int \<Rightarrow> int list" where
  "fila_de ps k = map snd (filter (\<lambda>p. fst p = k) ps)"

definition filas_hasta :: "(int \<times> int) list \<Rightarrow> nat \<Rightarrow> int list" where
  "filas_hasta ps k = concat (map (\<lambda>j. fila_de ps (int j)) [0..<k])"

definition nodos_de :: "(int \<times> int) list \<Rightarrow> int" where
  "nodos_de ps = Max (insert (- 1) (fst ` set ps \<union> snd ` set ps)) + 1"

text \<open>
  The invariant of the second pass after the pairs \<open>hechos\<close>, and the flattening that
  \<open>construirCSR\<close> computes from the temporary rows.
\<close>

definition ady_inv :: "nat \<Rightarrow> (int \<times> int) list \<Rightarrow> adyacencia \<Rightarrow> bool" where
  "ady_inv n hechos ady \<longleftrightarrow>
     length (listaAdyacencia ady) = n \<and> length (contadores ady) = n \<and>
     length (capacidades ady) = n \<and>
     (\<forall>k<n. capacidades ady ! k = int (length (listaAdyacencia ady ! k)) \<and>
            0 < capacidades ady ! k \<and>
            contadores ady ! k = int (length (fila_de hechos (int k))) \<and>
            contadores ady ! k \<le> capacidades ady ! k \<and>
            take (length (fila_de hechos (int k))) (listaAdyacencia ady ! k) = fila_de hechos (int k))"

definition aplanar :: "int list list \<Rightarrow> int list \<Rightarrow> nat \<Rightarrow> int list" where
  "aplanar lista conts k = concat (map (\<lambda>j. take (nat (conts ! j)) (lista ! j)) [0..<k])"

text \<open>The graph that a load of the pairs \<open>ps\<close> leaves in the object \<open>g\<close>.\<close>

definition grafo_de :: "grafo \<Rightarrow> (int \<times> int) list \<Rightarrow> grafo" where
  "grafo_de g ps = g\<lparr>numNodos := nodos_de ps, numAristas := int (length ps),
     values_csr := replicate (length ps) 1,
     column_indices := filas_hasta ps (nat (nodos_de ps)),
     row_ptr := map (\<lambda>k. int (length (filas_hasta ps k))) [0..<Suc (nat (nodos_de ps))]\<rparr>"

text \<open>The scenario of the specification: four edges on three nodes.\<close>

definition ejemplo :: "(int \<times> int) list" where
  "ejemplo = [(0, 1), (0, 2), (1, 2), (2, 0)]"

definition grafo_ejemplo :: grafo where
  "grafo_ejemplo = \<lparr>numNodos = 3, numAristas = 4, esDirigido = True,
     values_csr = [1, 1, 1, 1], column_indices = [1, 2, 2, 0], row_ptr = [0, 2, 3, 4]\<rparr>"

section \<open>Edges and invariants of the traversals\<close>

text \<open>
  The edges that the CSR arrays store: \<open>(u, v)\<close> when \<open>v\<close> stands in the slice of \<open>u\<close>.
  \<open>csr_ok\<close> is what the traversals need of the arrays; every built graph has it.
\<close>

definition aristas :: "grafo \<Rightarrow> (int \<times> int) set" where
  "aristas g = {(u, v). 0 \<le> u \<and> u < numNodos g \<and>
     (\<exists>i. row_ptr g ! nat u \<le> i \<and> i < row_ptr g ! nat (u + 1) \<and> v = column_indices g ! nat i)}"


text \<open>
  The invariants of \<open>BFS\<close>. \<open>encolados\<close> is the part of the queue that has been written (the
  nodes discovered so far, in order) and \<open>dist_de\<close> the distance recorded for a node.
\<close>

definition encolados :: "bfs_estado \<Rightarrow> int list" where
  "encolados st = take (nat (final st)) (cola st)"

definition dist_de :: "bfs_estado \<Rightarrow> int \<Rightarrow> int" where
  "dist_de st v = distancias st ! nat v"


definition expande :: "int \<Rightarrow> int \<Rightarrow> bool" where
  "expande profundidadMax d \<longleftrightarrow> \<not> (profundidadMax \<noteq> - 1 \<and> d \<ge> profundidadMax)"

definition bfs_niveles :: "grafo \<Rightarrow> int \<Rightarrow> int \<Rightarrow> bfs_estado \<Rightarrow> bool" where
  "bfs_niveles g s profundidadMax st \<longleftrightarrow>
     s \<in> set (encolados st) \<and> dist_de st s = 0 \<and>
     (\<forall>v\<in>set (encolados st). 0 \<le> dist_de st v \<and>
        (s, v) \<in> aristas g ^^ nat (dist_de st v) \<and>
        (0 \<le> profundidadMax \<longrightarrow> dist_de st v \<le> profundidadMax)) \<and>
     sorted (map (dist_de st) (encolados st))"

definition cerrado :: "grafo \<Rightarrow> int \<Rightarrow> bfs_estado \<Rightarrow> int \<Rightarrow> bool" where
  "cerrado g profundidadMax st u \<longleftrightarrow>
     (expande profundidadMax (dist_de st u) \<longrightarrow>
      (\<forall>v. (u, v) \<in> aristas g \<longrightarrow> v \<in> set (encolados st) \<and> dist_de st v \<le> dist_de st u + 1))"








section \<open>Arrays and loops: basic facts\<close>

lemma leer_ok: "0 \<le> i \<Longrightarrow> i < int (length a) \<Longrightarrow> leer a i = Some (a ! nat i)"
  by (simp add: leer_def)

lemma escribir_ok: "0 \<le> i \<Longrightarrow> i < int (length a) \<Longrightarrow> escribir a i v = Some (a[nat i := v])"
  by (simp add: escribir_def)

lemma bucle_for_fin: "\<not> i < n \<Longrightarrow> bucle_for i n c s = Some s"
  by (subst bucle_for.simps) simp

lemma bucle_for_paso:
  "i < n \<Longrightarrow> bucle_for i n c s = (case c i s of None \<Rightarrow> None | Some s' \<Rightarrow> bucle_for (i + 1) n c s')"
  by (subst bucle_for.simps) simp

lemma bucle_for_inv:
  assumes "i \<le> n" and "I i s"
    and "\<And>j t. i \<le> j \<Longrightarrow> j < n \<Longrightarrow> I j t \<Longrightarrow> \<exists>t'. c j t = Some t' \<and> I (j + 1) t'"
  shows "\<exists>s'. bucle_for i n c s = Some s' \<and> I n s'"
  using assms
proof (induction "nat (n - i)" arbitrary: i s)
  case 0
  then have "i = n" by simp
  with 0 show ?case by (simp add: bucle_for_fin)
next
  case (Suc k)
  then have lt: "i < n" by simp
  from Suc.prems(3)[OF order_refl lt Suc.prems(2)] obtain t
    where t: "c i s = Some t" "I (i + 1) t" by blast
  have "\<exists>s'. bucle_for (i + 1) n c t = Some s' \<and> I n s'"
  proof (rule Suc.hyps(1))
    show "k = nat (n - (i + 1))" using Suc.hyps(2) by simp
    show "i + 1 \<le> n" using lt by simp
    show "I (i + 1) t" by (rule t)
    show "\<exists>t'. c j t = Some t' \<and> I (j + 1) t'" if "i + 1 \<le> j" "j < n" "I j t" for j t
      using Suc.prems(3)[of j t] that by simp
  qed
  with t lt show ?case by (simp add: bucle_for_paso)
qed

lemma copiar_eq:
  assumes "0 \<le> desde" "0 \<le> n" "desde + n \<le> int (length src)" "n \<le> int (length dst)"
  shows "copiar src desde n dst = Some (take (nat n) (drop (nat desde) src) @ drop (nat n) dst)"
proof -
  let ?I = "\<lambda>j d. d = take (nat j) (drop (nat desde) src) @ drop (nat j) dst"
  have "\<exists>s'. bucle_for 0 n (\<lambda>i dst. do { x \<leftarrow> leer src (desde + i); escribir dst i x }) dst = Some s'
      \<and> ?I n s'"
  proof (rule bucle_for_inv[where I = ?I])
    show "0 \<le> n" by fact
    show "?I 0 dst" by simp
    fix j t assume j: "0 \<le> j" "j < n" and t: "?I j t"
    have l1: "nat j < length (drop (nat desde) src)" using j assms by simp
    have l2: "nat j < length dst" using j assms by simp
    have len: "length t = length dst" using t l1 l2 by simp
    have r: "leer src (desde + j) = Some (src ! nat (desde + j))"
      using j assms by (intro leer_ok) auto
    have w: "escribir t j (src ! nat (desde + j)) = Some (t[nat j := src ! nat (desde + j)])"
      using j assms len by (intro escribir_ok) auto
    have "t[nat j := src ! nat (desde + j)] =
        take (nat (j + 1)) (drop (nat desde) src) @ drop (nat (j + 1)) dst"
    proof -
      have nj: "nat (j + 1) = Suc (nat j)" using j by simp
      have e: "src ! nat (desde + j) = drop (nat desde) src ! nat j"
        using j assms by (simp add: nat_add_distrib)
      have "take (nat j) (drop (nat desde) src) @ drop (nat j) dst
          = take (nat j) (drop (nat desde) src) @ (dst ! nat j) # drop (Suc (nat j)) dst"
        using l2 by (simp add: Cons_nth_drop_Suc)
      then have "t[nat j := src ! nat (desde + j)]
          = take (nat j) (drop (nat desde) src) @ (src ! nat (desde + j)) # drop (Suc (nat j)) dst"
        using t l1 by (simp add: list_update_append min_def)
      also have "\<dots> = take (Suc (nat j)) (drop (nat desde) src) @ drop (Suc (nat j)) dst"
        using l1 e by (simp add: take_Suc_conv_app_nth)
      finally show ?thesis using nj by simp
    qed
    with r w show "\<exists>t'. (do { x \<leftarrow> leer src (desde + j); escribir t j x }) = Some t' \<and> ?I (j + 1) t'"
      by simp
  qed
  then show ?thesis by (auto simp: copiar_def)
qed

lemma primera_pasada_eq:
  assumes "0 \<le> c" and "c \<le> INT_MAX"
  shows "primera_pasada ps m c =
    (if c + int (length ps) \<le> INT_MAX
     then Some (Max (insert m (fst ` set ps \<union> snd ` set ps)), c + int (length ps))
     else None)"
  using assms
proof (induction ps arbitrary: m c)
  case Nil
  then show ?case by simp
next
  case (Cons p ps)
  obtain a b where p: "p = (a, b)" by (cases p)
  let ?m2 = "max (max m a) b"
  let ?S = "fst ` set ps \<union> snd ` set ps"
  have mx: "Max (insert ?m2 ?S) = Max (insert m (fst ` set (p # ps) \<union> snd ` set (p # ps)))"
  proof -
    have "Max (insert ?m2 ?S) = Max (insert m (insert a (insert b ?S)))"
      by (cases "?S = {}") (simp_all add: max.assoc max.commute max.left_commute)
    also have "insert m (insert a (insert b ?S))
        = insert m (fst ` set (p # ps) \<union> snd ` set (p # ps))"
      using p by auto
    finally show ?thesis .
  qed
  have m2: "(if b > (if a > m then a else m) then b else (if a > m then a else m)) = ?m2"
    by (simp add: max_def)
  have st: "primera_pasada (p # ps) m c =
      (case suma c 1 of None \<Rightarrow> None | Some c' \<Rightarrow> primera_pasada ps ?m2 c')"
    unfolding p primera_pasada.simps Let_def m2 ..
  show ?case
  proof (cases "c + 1 \<le> INT_MAX")
    case True
    with Cons.prems have s: "suma c 1 = Some (c + 1)" by (simp add: suma_def INT_MAX_def)
    have "0 \<le> c + 1" using Cons.prems by simp
    from Cons.IH[OF this True, of ?m2]
    have "primera_pasada ps ?m2 (c + 1) =
        (if c + 1 + int (length ps) \<le> INT_MAX
         then Some (Max (insert ?m2 ?S), c + 1 + int (length ps)) else None)" .
    then show ?thesis unfolding st s mx by (simp add: add.assoc add.commute)
  next
    case False
    then have "suma c 1 = None" by (simp add: suma_def)
    moreover from False have "\<not> c + int (length (p # ps)) \<le> INT_MAX" by simp
    ultimately show ?thesis unfolding st by simp
  qed
qed

lemma expandir_inv:
  assumes inv: "ady_inv n hechos ady" and a: "0 \<le> a" "a < int n"
    and nd: "capacidades ady ! nat a \<le> contadores ady ! nat a
      \<Longrightarrow> capacidades ady ! nat a * 2 \<le> INT_MAX"
  shows "\<exists>ady1. expandir ady a = Some ady1 \<and> ady_inv n hechos ady1 \<and>
           contadores ady1 ! nat a < capacidades ady1 ! nat a"
proof -
  let ?k = "nat a"
  let ?R = "fila_de hechos a"
  let ?row = "listaAdyacencia ady ! ?k"
  let ?c = "contadores ady ! ?k"
  let ?cap = "capacidades ady ! ?k"
  have k: "?k < n" "int ?k = a" using a by auto
  from inv have lens: "length (listaAdyacencia ady) = n" "length (contadores ady) = n"
      "length (capacidades ady) = n"
    by (auto simp: ady_inv_def)
  from inv k have row: "?cap = int (length ?row)" "0 < ?cap" "?c = int (length ?R)" "?c \<le> ?cap"
      "take (length ?R) ?row = ?R"
    by (auto simp: ady_inv_def)
  have r1: "leer (contadores ady) a = Some ?c" using a lens by (simp add: leer_ok)
  have r2: "leer (capacidades ady) a = Some ?cap" using a lens by (simp add: leer_ok)
  show ?thesis
  proof (cases "?c \<ge> ?cap")
    case False
    with r1 r2 inv show ?thesis by (simp add: expandir_def)
  next
    case True
    with row have ceq: "?c = ?cap" by simp
    let ?nuevo = "take (nat ?c) (drop (nat 0) ?row) @ drop (nat ?c) (replicate (nat (?cap * 2)) 0)"
    have r3: "leer (listaAdyacencia ady) a = Some ?row" using a lens by (simp add: leer_ok)
    have cp: "copiar ?row 0 ?c (replicate (nat (?cap * 2)) 0) = Some ?nuevo"
      using row by (intro copiar_eq) auto
    have w1: "escribir (listaAdyacencia ady) a ?nuevo = Some ((listaAdyacencia ady)[?k := ?nuevo])"
      using a lens by (simp add: escribir_ok)
    have w2: "escribir (capacidades ady) a (?cap * 2) = Some ((capacidades ady)[?k := ?cap * 2])"
      using a lens by (simp add: escribir_ok)
    let ?ady1 = "ady\<lparr>listaAdyacencia := (listaAdyacencia ady)[?k := ?nuevo],
                     capacidades := (capacidades ady)[?k := ?cap * 2]\<rparr>"
    have pr: "producto ?cap 2 = Some (?cap * 2)"
      using nd[OF True] row(2) by (simp add: producto_def INT_MAX_def)
    have e: "expandir ady a = Some ?ady1"
      using True r1 r2 r3 pr cp w1 w2 by (simp add: expandir_def Let_def)
    have ln: "int (length ?nuevo) = ?cap * 2" using row ceq by auto
    have tk: "take (length ?R) ?nuevo = ?R" using row ceq by auto
    have "ady_inv n hechos ?ady1"
      unfolding ady_inv_def
    proof (intro conjI allI impI)
      fix j assume j: "j < n"
      show "capacidades ?ady1 ! j = int (length (listaAdyacencia ?ady1 ! j))"
        using inv j lens ln by (cases "j = ?k") (auto simp: ady_inv_def)
      show "0 < capacidades ?ady1 ! j"
        using inv j lens row by (cases "j = ?k") (auto simp: ady_inv_def)
      show "contadores ?ady1 ! j = int (length (fila_de hechos (int j)))"
        using inv j by (auto simp: ady_inv_def)
      show "contadores ?ady1 ! j \<le> capacidades ?ady1 ! j"
        using inv j lens row by (cases "j = ?k") (auto simp: ady_inv_def)
      show "take (length (fila_de hechos (int j))) (listaAdyacencia ?ady1 ! j) = fila_de hechos (int j)"
        using inv j lens tk k by (cases "j = ?k") (auto simp: ady_inv_def)
    qed (use lens in auto)
    moreover have "contadores ?ady1 ! ?k < capacidades ?ady1 ! ?k"
      using row ceq lens k by simp
    ultimately show ?thesis using e by blast
  qed
qed

lemma fila_de_snoc:
  "fila_de (hechos @ [(a, b)]) k = fila_de hechos k @ (if a = k then [b] else [])"
  by (simp add: fila_de_def)

lemma take_Suc_update: "i < length xs \<Longrightarrow> take (Suc i) (xs[i := x]) = take i xs @ [x]"
  by (simp add: take_Suc_conv_app_nth)

lemma agregar_inv:
  assumes inv: "ady_inv n hechos ady" and a: "0 \<le> a" "a < int n"
    and nd: "capacidades ady ! nat a \<le> contadores ady ! nat a
      \<Longrightarrow> capacidades ady ! nat a * 2 \<le> INT_MAX"
  shows "\<exists>ady'. agregar ady (a, b) = Some ady' \<and> ady_inv n (hechos @ [(a, b)]) ady'"
proof -
  let ?k = "nat a"
  let ?R = "fila_de hechos a"
  from expandir_inv[OF inv a nd] obtain ady1 where e: "expandir ady a = Some ady1"
    and inv1: "ady_inv n hechos ady1"
    and lt: "contadores ady1 ! ?k < capacidades ady1 ! ?k"
    by blast
  let ?row = "listaAdyacencia ady1 ! ?k"
  let ?c = "contadores ady1 ! ?k"
  have k: "?k < n" "int ?k = a" using a by auto
  from inv1 have lens: "length (listaAdyacencia ady1) = n" "length (contadores ady1) = n"
      "length (capacidades ady1) = n"
    by (auto simp: ady_inv_def)
  from inv1 k have row: "capacidades ady1 ! ?k = int (length ?row)" "?c = int (length ?R)"
      "take (length ?R) ?row = ?R"
    by (auto simp: ady_inv_def)
  have r1: "leer (contadores ady1) a = Some ?c" using a lens by (simp add: leer_ok)
  have r2: "leer (listaAdyacencia ady1) a = Some ?row" using a lens by (simp add: leer_ok)
  have w1: "escribir ?row ?c b = Some (?row[length ?R := b])"
    using row lt by (simp add: escribir_def)
  let ?row' = "?row[length ?R := b]"
  have w2: "escribir (listaAdyacencia ady1) a ?row' = Some ((listaAdyacencia ady1)[?k := ?row'])"
    using a lens by (simp add: escribir_ok)
  have w3: "escribir (contadores ady1) a (?c + 1) = Some ((contadores ady1)[?k := ?c + 1])"
    using a lens by (simp add: escribir_ok)
  let ?ady' = "ady1\<lparr>listaAdyacencia := (listaAdyacencia ady1)[?k := ?row'],
                    contadores := (contadores ady1)[?k := ?c + 1]\<rparr>"
  have ag: "agregar ady (a, b) = Some ?ady'"
    using e r1 r2 w1 w2 w3 by (simp add: agregar_def)
  have ltn: "length ?R < length ?row" using row lt by simp
  have tk: "take (Suc (length ?R)) ?row' = ?R @ [b]"
    using take_Suc_update[OF ltn, of b] row by simp
  have "ady_inv n (hechos @ [(a, b)]) ?ady'"
    unfolding ady_inv_def
  proof (intro conjI allI impI)
    fix j assume j: "j < n"
    show "capacidades ?ady' ! j = int (length (listaAdyacencia ?ady' ! j))"
      using inv1 j lens by (cases "j = ?k") (auto simp: ady_inv_def)
    show "0 < capacidades ?ady' ! j"
      using inv1 j by (auto simp: ady_inv_def)
    show "contadores ?ady' ! j = int (length (fila_de (hechos @ [(a, b)]) (int j)))"
      using inv1 j lens k by (cases "j = ?k") (auto simp: ady_inv_def fila_de_snoc)
    show "contadores ?ady' ! j \<le> capacidades ?ady' ! j"
      using inv1 j lens lt by (cases "j = ?k") (auto simp: ady_inv_def)
    show "take (length (fila_de (hechos @ [(a, b)]) (int j))) (listaAdyacencia ?ady' ! j)
        = fila_de (hechos @ [(a, b)]) (int j)"
    proof (cases "j = ?k")
      case True
      then show ?thesis using tk lens k by (simp add: fila_de_snoc)
    next
      case False
      then have "a \<noteq> int j" using k by auto
      with False show ?thesis using inv1 j lens by (auto simp: ady_inv_def fila_de_snoc)
    qed
  qed (use lens in auto)
  with ag show ?thesis by blast
qed

text \<open>
  A row is doubled only when it is full, so the doubled capacity is at most twice the
  number of the pairs read so far.
\<close>

lemma length_fila_de: "length (fila_de ps k) \<le> length ps"
  by (simp add: fila_de_def)

lemma segunda_pasada_inv:
  assumes "ady_inv n hechos ady" and "\<forall>p\<in>set ps. 0 \<le> fst p \<and> fst p < int n"
    and "2 * int (length hechos + length ps) \<le> INT_MAX"
  shows "\<exists>ady'. segunda_pasada ps ady = Some ady' \<and> ady_inv n (hechos @ ps) ady'"
  using assms
proof (induction ps arbitrary: hechos ady)
  case Nil
  then show ?case by simp
next
  case (Cons p ps)
  obtain a b where p: "p = (a, b)" by (cases p)
  with Cons.prems have a: "0 \<le> a" "a < int n" by auto
  have c: "contadores ady ! nat a = int (length (fila_de hechos a))"
    using Cons.prems(1) a by (auto simp: ady_inv_def)
  have nd: "capacidades ady ! nat a * 2 \<le> INT_MAX"
    if "capacidades ady ! nat a \<le> contadores ady ! nat a"
    using that c length_fila_de[of hechos a] Cons.prems(3) by simp
  from agregar_inv[OF Cons.prems(1) a nd, of b] obtain ady1
    where s: "agregar ady (a, b) = Some ady1" and i: "ady_inv n (hechos @ [(a, b)]) ady1"
    by blast
  have "2 * int (length (hechos @ [(a, b)]) + length ps) \<le> INT_MAX"
    using Cons.prems(3) by simp
  from Cons.IH[OF i _ this] Cons.prems(2) obtain ady'
    where "segunda_pasada ps ady1 = Some ady'" "ady_inv n ((hechos @ [(a, b)]) @ ps) ady'"
    by auto
  with s p show ?case by simp
qed

text \<open>A second pass that returns has read no pair with a negative origin, and has doubled
  no capacity out of the range of \<^verbatim>\<open>int\<close>.\<close>

lemma agregar_origen: "agregar ady (a, b) = Some ady' \<Longrightarrow> 0 \<le> a"
  by (auto simp: agregar_def expandir_def leer_def split: Option.bind_splits if_splits)

lemma agregar_capacidad:
  assumes "agregar ady (a, b) = Some ady'" and "a < int (length (contadores ady))"
    and "a < int (length (capacidades ady))"
    and "capacidades ady ! nat a \<le> contadores ady ! nat a"
  shows "capacidades ady ! nat a * 2 \<le> INT_MAX"
  using assms
  by (auto simp: agregar_def expandir_def leer_def producto_def
         split: Option.bind_splits if_splits)

lemma segunda_pasada_origen: "segunda_pasada ps ady = Some ady' \<Longrightarrow> \<forall>p\<in>set ps. 0 \<le> fst p"
proof (induction ps arbitrary: ady)
  case Nil
  show ?case by simp
next
  case (Cons p ps)
  obtain a b where p: "p = (a, b)" by (cases p)
  from Cons.prems p obtain ady1 where a: "agregar ady (a, b) = Some ady1"
    and r: "segunda_pasada ps ady1 = Some ady'"
    by (auto split: option.splits)
  from agregar_origen[OF a] Cons.IH[OF r] p show ?case by simp
qed

lemma segunda_pasada_devuelve:
  assumes "segunda_pasada ps ady = Some ady'" and "ady_inv n hechos ady"
    and "\<forall>p\<in>set ps. fst p < int n"
  shows "ady_inv n (hechos @ ps) ady'"
  using assms
proof (induction ps arbitrary: hechos ady)
  case Nil
  then show ?case by simp
next
  case (Cons p ps)
  obtain a b where p: "p = (a, b)" by (cases p)
  from Cons.prems(1) p obtain ady1 where s: "agregar ady (a, b) = Some ady1"
    and r: "segunda_pasada ps ady1 = Some ady'"
    by (auto split: option.splits)
  from Cons.prems(3) p agregar_origen[OF s] have a: "0 \<le> a" "a < int n" by auto
  from Cons.prems(2) have lens: "length (contadores ady) = n" "length (capacidades ady) = n"
    by (auto simp: ady_inv_def)
  have nd: "capacidades ady ! nat a * 2 \<le> INT_MAX"
    if "capacidades ady ! nat a \<le> contadores ady ! nat a"
    using agregar_capacidad[OF s _ _ that] a lens by simp
  from agregar_inv[OF Cons.prems(2) a nd, of b] s
  have i: "ady_inv n (hechos @ [(a, b)]) ady1" by simp
  from Cons.IH[OF r i] Cons.prems(3) have "ady_inv n ((hechos @ [(a, b)]) @ ps) ady'" by simp
  with p show ?case by simp
qed

lemma ady_inv_inicial:
  "ady_inv n [] \<lparr>listaAdyacencia = replicate n (replicate 10 0),
                   contadores = replicate n 0, capacidades = replicate n 10\<rparr>"
  by (simp add: ady_inv_def fila_de_def)

lemma aplanar_0: "aplanar lista conts 0 = []"
  by (simp add: aplanar_def)

lemma aplanar_Suc:
  "aplanar lista conts (Suc k) = aplanar lista conts k @ take (nat (conts ! k)) (lista ! k)"
  by (simp add: aplanar_def)

lemma length_aplanar_mono:
  "k \<le> k' \<Longrightarrow> length (aplanar lista conts k) \<le> length (aplanar lista conts k')"
proof (induction k')
  case 0
  then show ?case by simp
next
  case (Suc k')
  then show ?case by (cases "k = Suc k'") (auto simp: aplanar_Suc intro: trans_le_add1)
qed

lemma row_ptr_bucle:
  fixes conts :: "int list"
  assumes len: "length conts = n"
    and L: "\<And>k. k < n \<Longrightarrow> L (Suc k) = L k + conts ! k" and L0: "L 0 = 0"
  shows "bucle_for 0 (int n)
           (\<lambda>i rp. do { a \<leftarrow> leer rp i; c \<leftarrow> leer conts i; escribir rp (i + 1) (a + c) })
           ((replicate (Suc n) 0)[0 := 0])
         = Some (map L [0..<Suc n])"
proof -
  let ?c = "\<lambda>i rp. do { a \<leftarrow> leer rp i; c \<leftarrow> leer conts i; escribir rp (i + 1) (a + c) }"
  let ?I = "\<lambda>j rp. length rp = Suc n \<and> (\<forall>k \<le> nat j. rp ! k = L k)"
  have "\<exists>s'. bucle_for 0 (int n) ?c ((replicate (Suc n) 0)[0 := 0]) = Some s' \<and> ?I (int n) s'"
  proof (rule bucle_for_inv[where I = ?I])
    show "0 \<le> int n" by simp
    show "?I 0 ((replicate (Suc n) 0)[0 := 0])" using L0 by simp
    fix j t assume j: "0 \<le> j" "j < int n" and t: "?I j t"
    have r1: "leer t j = Some (L (nat j))" using j t by (simp add: leer_def)
    have r2: "leer conts j = Some (conts ! nat j)" using j len by (simp add: leer_def)
    have w: "escribir t (j + 1) (L (nat j) + conts ! nat j)
        = Some (t[Suc (nat j) := L (Suc (nat j))])"
      using j t L[of "nat j"] by (simp add: escribir_def nat_add_distrib)
    have "?I (j + 1) (t[Suc (nat j) := L (Suc (nat j))])"
    proof (intro conjI allI impI)
      fix k assume "k \<le> nat (j + 1)"
      then have "k \<le> nat j \<or> k = Suc (nat j)" using j by auto
      then show "t[Suc (nat j) := L (Suc (nat j))] ! k = L k"
        using t j by (auto simp: nth_list_update)
    qed (use t in simp)
    with r1 r2 w show "\<exists>t'. ?c j t = Some t' \<and> ?I (j + 1) t'" by simp
  qed
  then obtain rp where rp: "bucle_for 0 (int n) ?c ((replicate (Suc n) 0)[0 := 0]) = Some rp"
    and I: "?I (int n) rp" by blast
  have "rp = map L [0..<Suc n]"
  proof (rule nth_equalityI)
    show "length rp = length (map L [0..<Suc n])" using I by simp
    fix i assume "i < length rp"
    with I have "i \<le> n" by simp
    with I have "rp ! i = L i" by simp
    moreover have "map L [0..<Suc n] ! i = L i"
      using \<open>i \<le> n\<close> by (metis add_0 diff_zero le_imp_less_Suc nth_map_upt)
    ultimately show "rp ! i = map L [0..<Suc n] ! i" by simp
  qed
  with rp show ?thesis by simp
qed

lemma llenar_fila_bucle:
  assumes li: "leer lista i = Some fila" and c: "0 \<le> c" "c \<le> int (length fila)"
    and lens: "length vals = M" "length cols = M"
    and room: "B + nat c \<le> M"
    and pre: "take B vals = replicate B (1::int)" "take B cols = P"
  shows "\<exists>vals' cols'. bucle_for 0 c (llenar_fila lista i) (vals, cols, int B)
            = Some (vals', cols', int (B + nat c)) \<and>
          length vals' = M \<and> length cols' = M \<and>
          take (B + nat c) vals' = replicate (B + nat c) 1 \<and>
          take (B + nat c) cols' = P @ take (nat c) fila"
proof -
  let ?I = "\<lambda>j s. case s of (vs, cs, idx) \<Rightarrow>
      idx = int (B + nat j) \<and> length vs = M \<and> length cs = M \<and>
      take (B + nat j) vs = replicate (B + nat j) (1::int) \<and>
      take (B + nat j) cs = P @ take (nat j) fila"
  have "\<exists>s'. bucle_for 0 c (llenar_fila lista i) (vals, cols, int B) = Some s' \<and> ?I c s'"
  proof (rule bucle_for_inv[where I = ?I])
    show "0 \<le> c" by fact
    show "?I 0 (vals, cols, int B)" using lens pre by simp
    fix j t assume j: "0 \<le> j" "j < c" and t: "?I j t"
    obtain vs cs idx where teq: "t = (vs, cs, idx)" by (cases t)
    from t teq have I: "idx = int (B + nat j)" "length vs = M" "length cs = M"
        "take (B + nat j) vs = replicate (B + nat j) 1"
        "take (B + nat j) cs = P @ take (nat j) fila"
      by auto
    have lt: "B + nat j < M" using j room by linarith
    have nj: "nat (j + 1) = Suc (nat j)" using j by simp
    have ix: "nat idx = B + nat j" "0 \<le> idx" "idx < int M" using I lt j by auto
    have w1: "escribir vs idx 1 = Some (vs[B + nat j := 1])"
      using I ix by (simp add: escribir_def)
    have r: "leer fila j = Some (fila ! nat j)" using j c by (simp add: leer_def)
    have w2: "escribir cs idx (fila ! nat j) = Some (cs[B + nat j := fila ! nat j])"
      using I ix by (simp add: escribir_def)
    have st: "llenar_fila lista i j t
        = Some (vs[B + nat j := 1], cs[B + nat j := fila ! nat j], idx + 1)"
      using teq w1 li r w2 by (simp add: llenar_fila_def)
    have t1: "take (Suc (B + nat j)) (vs[B + nat j := 1]) = replicate (Suc (B + nat j)) 1"
      using take_Suc_update[of "B + nat j" vs 1] lt I by (simp add: replicate_append_same)
    have fj: "nat j < length fila" using j c by linarith
    have t2: "take (Suc (B + nat j)) (cs[B + nat j := fila ! nat j])
        = P @ take (Suc (nat j)) fila"
      using take_Suc_update[of "B + nat j" cs "fila ! nat j"] lt I fj
      by (simp add: take_Suc_conv_app_nth)
    have "?I (j + 1) (vs[B + nat j := 1], cs[B + nat j := fila ! nat j], idx + 1)"
      using I t1 t2 nj by simp
    with st show "\<exists>t'. llenar_fila lista i j t = Some t' \<and> ?I (j + 1) t'" by blast
  qed
  then show ?thesis by auto
qed

lemma llenar_bucle:
  assumes n: "length conts = n" "length lista = n"
    and rows: "\<And>k. k < n \<Longrightarrow> 0 \<le> conts ! k \<and> conts ! k \<le> int (length (lista ! k))"
    and M: "M = length (aplanar lista conts n)"
  shows "\<exists>idx. bucle_for 0 (int n)
           (\<lambda>i s. do { c \<leftarrow> leer conts i; bucle_for 0 c (llenar_fila lista i) s })
           (replicate M 0, replicate M 0, 0)
         = Some (replicate M 1, aplanar lista conts n, idx)"
proof -
  let ?F = "aplanar lista conts"
  let ?c = "\<lambda>i s. do { c \<leftarrow> leer conts i; bucle_for 0 c (llenar_fila lista i) s }"
  let ?I = "\<lambda>i s. case s of (vs, cs, idx) \<Rightarrow>
      idx = int (length (?F (nat i))) \<and> length vs = M \<and> length cs = M \<and>
      take (length (?F (nat i))) vs = replicate (length (?F (nat i))) (1::int) \<and>
      take (length (?F (nat i))) cs = ?F (nat i)"
  have "\<exists>s'. bucle_for 0 (int n) ?c (replicate M 0, replicate M 0, 0) = Some s' \<and> ?I (int n) s'"
  proof (rule bucle_for_inv[where I = ?I])
    show "0 \<le> int n" by simp
    show "?I 0 (replicate M 0, replicate M 0, 0)" by (simp add: aplanar_0)
    fix i t assume i: "0 \<le> i" "i < int n" and t: "?I i t"
    obtain vs cs idx where teq: "t = (vs, cs, idx)" by (cases t)
    let ?k = "nat i"
    have k: "?k < n" using i by simp
    from t teq have I: "idx = int (length (?F ?k))" "length vs = M" "length cs = M"
        "take (length (?F ?k)) vs = replicate (length (?F ?k)) 1"
        "take (length (?F ?k)) cs = ?F ?k"
      by auto
    have r1: "leer conts i = Some (conts ! ?k)" using i n by (simp add: leer_def)
    have r2: "leer lista i = Some (lista ! ?k)" using i n by (simp add: leer_def)
    have c: "0 \<le> conts ! ?k" "conts ! ?k \<le> int (length (lista ! ?k))" using rows[OF k] by auto
    have lS: "length (?F (Suc ?k)) = length (?F ?k) + nat (conts ! ?k)"
      using c by (auto simp: aplanar_Suc min_def)
    have room: "length (?F ?k) + nat (conts ! ?k) \<le> M"
      using length_aplanar_mono[of "Suc ?k" n lista conts] k lS M by simp
    from llenar_fila_bucle[OF r2 c I(2,3) room I(4,5)] obtain vs' cs' where
      b: "bucle_for 0 (conts ! ?k) (llenar_fila lista i) (vs, cs, int (length (?F ?k)))
            = Some (vs', cs', int (length (?F ?k) + nat (conts ! ?k)))"
      and r: "length vs' = M" "length cs' = M"
        "take (length (?F ?k) + nat (conts ! ?k)) vs' = replicate (length (?F ?k) + nat (conts ! ?k)) 1"
        "take (length (?F ?k) + nat (conts ! ?k)) cs' = ?F ?k @ take (nat (conts ! ?k)) (lista ! ?k)"
      by blast
    have nk: "nat (i + 1) = Suc ?k" using i by simp
    have "?I (i + 1) (vs', cs', int (length (?F ?k) + nat (conts ! ?k)))"
      using r lS nk by (simp add: aplanar_Suc)
    moreover have "?c i t = Some (vs', cs', int (length (?F ?k) + nat (conts ! ?k)))"
      using r1 b teq I(1) by simp
    ultimately show "\<exists>t'. ?c i t = Some t' \<and> ?I (i + 1) t'" by blast
  qed
  then obtain vs cs idx where
    b: "bucle_for 0 (int n) ?c (replicate M 0, replicate M 0, 0) = Some (vs, cs, idx)"
    and I: "length vs = M" "length cs = M" "take M vs = replicate M 1" "take M cs = ?F n"
    using M by auto
  from I have "vs = replicate M 1" "cs = ?F n" by auto
  with b show ?thesis by blast
qed

lemma construirCSR_eq:
  assumes n: "numNodos g = int n" "length conts = n" "length lista = n"
    and rows: "\<And>k. k < n \<Longrightarrow> 0 \<le> conts ! k \<and> conts ! k \<le> int (length (lista ! k))"
    and m: "numAristas g = int (length (aplanar lista conts n))"
    and r: "int n + 1 \<le> INT_MAX"
  shows "construirCSR g lista conts =
    Some (g\<lparr>values_csr := replicate (length (aplanar lista conts n)) 1,
            column_indices := aplanar lista conts n,
            row_ptr := map (\<lambda>k. int (length (aplanar lista conts k))) [0..<Suc n]\<rparr>)"
proof -
  let ?M = "length (aplanar lista conts n)"
  have a: "nat (int n + 1) = Suc n" by simp
  have t: "suma (int n) 1 = Some (int n + 1)" using r by (simp add: suma_def INT_MAX_def)
  have w: "escribir (replicate (Suc n) (0::int)) 0 0 = Some ((replicate (Suc n) 0)[0 := 0])"
    by (simp add: escribir_def)
  have rp: "bucle_for 0 (int n)
           (\<lambda>i rp. do { a \<leftarrow> leer rp i; c \<leftarrow> leer conts i; escribir rp (i + 1) (a + c) })
           ((replicate (Suc n) 0)[0 := 0])
         = Some (map (\<lambda>k. int (length (aplanar lista conts k))) [0..<Suc n])"
  proof (rule row_ptr_bucle)
    show "length conts = n" by fact
    show "int (length (aplanar lista conts 0)) = 0" by (simp add: aplanar_0)
    fix k assume "k < n"
    from rows[OF this]
    show "int (length (aplanar lista conts (Suc k))) = int (length (aplanar lista conts k)) + conts ! k"
      by (auto simp: aplanar_Suc min_def)
  qed
  from llenar_bucle[OF n(2,3) rows refl] obtain idx where
    fl: "bucle_for 0 (int n)
           (\<lambda>i s. do { c \<leftarrow> leer conts i; bucle_for 0 c (llenar_fila lista i) s })
           (replicate ?M 0, replicate ?M 0, 0)
         = Some (replicate ?M 1, aplanar lista conts n, idx)"
    by blast
  show ?thesis
    using w rp fl by (simp add: construirCSR_def Let_def n(1) m a t)
qed

lemma length_filas_hasta_sum:
  "length (filas_hasta ps n) = (\<Sum>j = 0..<n. length (fila_de ps (int j)))"
  by (simp add: filas_hasta_def length_concat comp_def interv_sum_list_conv_sum_set_nat)

lemma length_filas_hasta:
  assumes "\<forall>p\<in>set ps. 0 \<le> fst p \<and> fst p < int n"
  shows "length (filas_hasta ps n) = length ps"
  using assms
proof (induction ps)
  case Nil
  show ?case by (simp add: length_filas_hasta_sum fila_de_def)
next
  case (Cons p ps)
  then have a: "0 \<le> fst p" "fst p < int n" by auto
  have "(\<Sum>j = 0..<n. length (fila_de (p # ps) (int j)))
      = (\<Sum>j = 0..<n. (if j = nat (fst p) then 1 else 0) + length (fila_de ps (int j)))"
    using a by (intro sum.cong) (auto simp: fila_de_def)
  also have "\<dots> = (\<Sum>j = 0..<n. if j = nat (fst p) then 1 else 0)
      + (\<Sum>j = 0..<n. length (fila_de ps (int j)))"
    by (simp add: sum.distrib)
  also have "(\<Sum>j = 0..<n. if j = nat (fst p) then 1 else 0) = (1::nat)"
    using a by simp
  finally show ?case using Cons by (simp add: length_filas_hasta_sum)
qed

lemma nodos_de_cotas:
  "0 \<le> nodos_de ps" "p \<in> set ps \<Longrightarrow> fst p < nodos_de ps" "p \<in> set ps \<Longrightarrow> snd p < nodos_de ps"
proof -
  let ?S = "insert (- 1) (fst ` set ps \<union> snd ` set ps)"
  have fin: "finite ?S" by simp
  have "- 1 \<le> Max ?S" using fin by (intro Max_ge) auto
  then show "0 \<le> nodos_de ps" unfolding nodos_de_def by linarith
  show "fst p < nodos_de ps" if "p \<in> set ps"
  proof -
    have "fst p \<le> Max ?S" using fin that by (intro Max_ge) auto
    then show ?thesis unfolding nodos_de_def by linarith
  qed
  show "snd p < nodos_de ps" if "p \<in> set ps"
  proof -
    have "snd p \<le> Max ?S" using fin that by (intro Max_ge) auto
    then show ?thesis unfolding nodos_de_def by linarith
  qed
qed

lemma aplanar_ady_inv:
  assumes "ady_inv n ps ady" "k \<le> n"
  shows "aplanar (listaAdyacencia ady) (contadores ady) k = filas_hasta ps k"
proof -
  have "take (nat (contadores ady ! j)) (listaAdyacencia ady ! j) = fila_de ps (int j)"
    if "j < k" for j
    using assms that by (auto simp: ady_inv_def)
  then have "map (\<lambda>j. take (nat (contadores ady ! j)) (listaAdyacencia ady ! j)) [0..<k]
      = map (\<lambda>j. fila_de ps (int j)) [0..<k]"
    by (intro map_cong) auto
  then show ?thesis unfolding aplanar_def filas_hasta_def by (rule arg_cong[where f = concat])
qed

lemma construirCSR_rango:
  "construirCSR g lista conts = Some g' \<Longrightarrow> numNodos g + 1 \<le> INT_MAX"
  by (auto simp: construirCSR_def suma_def split: Option.bind_splits if_splits)

text \<open>
  The load after its first pass: it goes on when the count of the pairs and
  \<^verbatim>\<open>nodoMaximo + 1\<close> are in the range of \<^verbatim>\<open>int\<close>.
\<close>

lemma cargarDatos_pasadas:
  "cargarDatos g (Some ps) =
    (if int (length ps) \<le> INT_MAX \<and> nodos_de ps \<le> INT_MAX then do {
       ady \<leftarrow> segunda_pasada ps
         \<lparr>listaAdyacencia = replicate (nat (nodos_de ps)) (replicate 10 0),
          contadores = replicate (nat (nodos_de ps)) 0,
          capacidades = replicate (nat (nodos_de ps)) 10\<rparr>;
       g2 \<leftarrow> construirCSR (g\<lparr>numNodos := nodos_de ps, numAristas := int (length ps)\<rparr>)
         (listaAdyacencia ady) (contadores ady);
       Some (True, g2)
     } else None)"
proof -
  have pp: "primera_pasada ps (- 1) 0 =
      (if int (length ps) \<le> INT_MAX then Some (nodos_de ps - 1, int (length ps)) else None)"
    using primera_pasada_eq[of 0 ps "- 1"] by (simp add: nodos_de_def INT_MAX_def)
  have sm: "suma (nodos_de ps - 1) 1 = (if nodos_de ps \<le> INT_MAX then Some (nodos_de ps) else None)"
    using nodos_de_cotas(1)[of ps] by (simp add: suma_def INT_MAX_def)
  show ?thesis
    unfolding cargarDatos_def option.case pp by (simp add: sm Let_def)
qed

lemma cargarDatos_eq:
  assumes sp: "segunda_pasada ps
         \<lparr>listaAdyacencia = replicate (nat (nodos_de ps)) (replicate 10 0),
          contadores = replicate (nat (nodos_de ps)) 0,
          capacidades = replicate (nat (nodos_de ps)) 10\<rparr> = Some ady"
    and len: "int (length ps) \<le> INT_MAX" and nod: "nodos_de ps + 1 \<le> INT_MAX"
  shows "cargarDatos g (Some ps) = Some (True,
      g\<lparr>numNodos := nodos_de ps, numAristas := int (length ps),
        values_csr := replicate (length ps) 1,
        column_indices := filas_hasta ps (nat (nodos_de ps)),
        row_ptr := map (\<lambda>k. int (length (filas_hasta ps k))) [0..<Suc (nat (nodos_de ps))]\<rparr>)"
proof -
  let ?n = "nat (nodos_de ps)"
  let ?g1 = "g\<lparr>numNodos := nodos_de ps, numAristas := int (length ps)\<rparr>"
  have rng: "\<forall>p\<in>set ps. 0 \<le> fst p \<and> fst p < int ?n"
    using segunda_pasada_origen[OF sp] nodos_de_cotas(1)[of ps] nodos_de_cotas(2)[of _ ps]
    by auto
  from rng have "\<forall>p\<in>set ps. fst p < int ?n" by simp
  from segunda_pasada_devuelve[OF sp ady_inv_inicial this]
  have inv: "ady_inv ?n ps ady" by simp
  have ap: "aplanar (listaAdyacencia ady) (contadores ady) k = filas_hasta ps k" if "k \<le> ?n" for k
    using aplanar_ady_inv[OF inv that] .
  have len': "length (filas_hasta ps ?n) = length ps" by (rule length_filas_hasta[OF rng])
  have "construirCSR ?g1 (listaAdyacencia ady) (contadores ady) =
    Some (?g1\<lparr>values_csr := replicate (length (aplanar (listaAdyacencia ady) (contadores ady) ?n)) 1,
            column_indices := aplanar (listaAdyacencia ady) (contadores ady) ?n,
            row_ptr := map (\<lambda>k. int (length (aplanar (listaAdyacencia ady) (contadores ady) k)))
                         [0..<Suc ?n]\<rparr>)"
  proof (rule construirCSR_eq)
    show "numNodos ?g1 = int ?n" using nodos_de_cotas(1)[of ps] by simp
    show "length (contadores ady) = ?n" "length (listaAdyacencia ady) = ?n"
      using inv by (auto simp: ady_inv_def)
    show "0 \<le> contadores ady ! k \<and> contadores ady ! k \<le> int (length (listaAdyacencia ady ! k))"
      if "k < ?n" for k
      using inv that by (auto simp: ady_inv_def)
    show "numAristas ?g1 = int (length (aplanar (listaAdyacencia ady) (contadores ady) ?n))"
      using ap[of ?n] len' by simp
    show "int ?n + 1 \<le> INT_MAX" using nod nodos_de_cotas(1)[of ps] by simp
  qed
  moreover have "map (\<lambda>k. int (length (aplanar (listaAdyacencia ady) (contadores ady) k))) [0..<Suc ?n]
      = map (\<lambda>k. int (length (filas_hasta ps k))) [0..<Suc ?n]"
    using ap by (intro map_cong) auto
  ultimately have c: "construirCSR ?g1 (listaAdyacencia ady) (contadores ady) =
    Some (?g1\<lparr>values_csr := replicate (length ps) 1,
            column_indices := filas_hasta ps ?n,
            row_ptr := map (\<lambda>k. int (length (filas_hasta ps k))) [0..<Suc ?n]\<rparr>)"
    using ap[of ?n] len' by simp
  have "nodos_de ps \<le> INT_MAX" using nod by simp
  with len sp c show ?thesis
    unfolding cargarDatos_pasadas by (simp del: upt_Suc)
qed

section \<open>The built graph\<close>

text \<open>
  A load that returns has built \<open>grafo_de\<close>. A list of pairs loads when its origins are
  not negative and no \<^verbatim>\<open>int\<close> of the load leaves its range, which
  \<open>2 * length ps + nodos_de ps + 1 \<le> INT_MAX\<close> ensures.
\<close>

lemma cargado:
  assumes "cargarDatos g0 (Some ps) = Some (ok, g)"
  shows "ok" and "g = grafo_de g0 ps" and "\<forall>p\<in>set ps. 0 \<le> fst p"
proof -
  from assms obtain ady g2 where len: "int (length ps) \<le> INT_MAX"
    and sp: "segunda_pasada ps
         \<lparr>listaAdyacencia = replicate (nat (nodos_de ps)) (replicate 10 0),
          contadores = replicate (nat (nodos_de ps)) 0,
          capacidades = replicate (nat (nodos_de ps)) 10\<rparr> = Some ady"
    and c: "construirCSR (g0\<lparr>numNodos := nodos_de ps, numAristas := int (length ps)\<rparr>)
         (listaAdyacencia ady) (contadores ady) = Some g2"
    unfolding cargarDatos_pasadas by (auto split: if_splits Option.bind_splits)
  from construirCSR_rango[OF c] have nod: "nodos_de ps + 1 \<le> INT_MAX" by simp
  from segunda_pasada_origen[OF sp] show "\<forall>p\<in>set ps. 0 \<le> fst p" .
  from assms cargarDatos_eq[OF sp len nod, of g0] show "ok" "g = grafo_de g0 ps"
    by (auto simp: grafo_de_def)
qed

lemma cargarDatos_grafo_de:
  assumes "\<forall>p\<in>set ps. 0 \<le> fst p" and "2 * int (length ps) + nodos_de ps + 1 \<le> INT_MAX"
  shows "cargarDatos g (Some ps) = Some (True, grafo_de g ps)"
proof -
  let ?n = "nat (nodos_de ps)"
  have n: "0 \<le> nodos_de ps" by (rule nodos_de_cotas(1))
  have rng: "\<forall>p\<in>set ps. 0 \<le> fst p \<and> fst p < int ?n"
    using assms(1) n nodos_de_cotas(2)[of _ ps] by auto
  have "2 * int (length ([]::(int \<times> int) list) + length ps) \<le> INT_MAX"
    using assms(2) n by simp
  from segunda_pasada_inv[OF ady_inv_inicial rng this] obtain ady where
    sp: "segunda_pasada ps \<lparr>listaAdyacencia = replicate ?n (replicate 10 0),
           contadores = replicate ?n 0, capacidades = replicate ?n 10\<rparr> = Some ady"
    by auto
  have "int (length ps) \<le> INT_MAX" "nodos_de ps + 1 \<le> INT_MAX" using assms(2) n by simp_all
  from cargarDatos_eq[OF sp this] show ?thesis by (simp add: grafo_de_def)
qed

lemma cargar_ejemplo: "cargarDatos GrafoDisperso (Some ejemplo) = Some (True, grafo_ejemplo)"
  unfolding ejemplo_def grafo_ejemplo_def by code_simp

lemma grafo_de_sel [simp]:
  "numNodos (grafo_de g ps) = nodos_de ps"
  "numAristas (grafo_de g ps) = int (length ps)"
  "values_csr (grafo_de g ps) = replicate (length ps) 1"
  "column_indices (grafo_de g ps) = filas_hasta ps (nat (nodos_de ps))"
  "length (row_ptr (grafo_de g ps)) = Suc (nat (nodos_de ps))"
  by (simp_all add: grafo_de_def)

lemma row_ptr_grafo_de:
  "k \<le> nat (nodos_de ps) \<Longrightarrow> row_ptr (grafo_de g ps) ! k = int (length (filas_hasta ps k))"
proof -
  assume "k \<le> nat (nodos_de ps)"
  then have "k < Suc (nat (nodos_de ps))" by simp
  then have "map (\<lambda>k. int (length (filas_hasta ps k))) [0..<Suc (nat (nodos_de ps))] ! k
      = int (length (filas_hasta ps k))"
    by (metis add_0 nth_map_upt diff_zero)
  then show ?thesis by (simp add: grafo_de_def)
qed

lemma filas_hasta_Suc: "filas_hasta ps (Suc k) = filas_hasta ps k @ fila_de ps (int k)"
  by (simp add: filas_hasta_def)

lemma filas_hasta_prefijo:
  "k \<le> n \<Longrightarrow> \<exists>zs. filas_hasta ps n = filas_hasta ps k @ zs"
proof (induction n)
  case 0
  then show ?case by simp
next
  case (Suc n)
  show ?case
  proof (cases "k = Suc n")
    case True
    then show ?thesis by simp
  next
    case False
    with Suc obtain zs where "filas_hasta ps n = filas_hasta ps k @ zs" by auto
    then show ?thesis by (simp add: filas_hasta_Suc)
  qed
qed

lemma length_filas_hasta_mono:
  "k \<le> n \<Longrightarrow> length (filas_hasta ps k) \<le> length (filas_hasta ps n)"
  using filas_hasta_prefijo[of k n ps] by auto

text \<open>The slice of node \<open>k\<close> in the column array is its row.\<close>

lemma rebanada_grafo_de:
  assumes "k < nat (nodos_de ps)"
  shows "take (length (fila_de ps (int k)))
           (drop (length (filas_hasta ps k)) (filas_hasta ps (nat (nodos_de ps))))
         = fila_de ps (int k)"
proof -
  from filas_hasta_prefijo[of "Suc k" "nat (nodos_de ps)" ps] assms
  obtain zs where "filas_hasta ps (nat (nodos_de ps)) = filas_hasta ps (Suc k) @ zs" by auto
  then show ?thesis by (simp add: filas_hasta_Suc)
qed

lemma set_fila_de: "v \<in> set (fila_de ps u) \<longleftrightarrow> (u, v) \<in> set ps"
  by (force simp: fila_de_def)

lemma obtenerGradoSalida_grafo_de:
  assumes "0 \<le> i" "i < nodos_de ps"
  shows "obtenerGradoSalida (grafo_de g ps) i = Some (int (length (fila_de ps i)))"
proof -
  have a: "nat (i + 1) = Suc (nat i)" "nat i < nat (nodos_de ps)"
    using assms by auto
  have S: "int (length (filas_hasta ps (Suc (nat i))))
      = int (length (filas_hasta ps (nat i))) + int (length (fila_de ps i))"
    using assms by (simp add: filas_hasta_Suc)
  have "leer (row_ptr (grafo_de g ps)) (i + 1) = Some (int (length (filas_hasta ps (Suc (nat i)))))"
    using assms a row_ptr_grafo_de[of "Suc (nat i)" ps g] by (simp add: leer_def)
  moreover have "leer (row_ptr (grafo_de g ps)) i = Some (int (length (filas_hasta ps (nat i))))"
    using assms a row_ptr_grafo_de[of "nat i" ps g] by (simp add: leer_def)
  ultimately show ?thesis
    using assms S by (simp add: obtenerGradoSalida_def)
qed

section \<open>Queries on ids out of range and traversals that do not expand\<close>

lemma BFS_sin_expandir:
  assumes s: "0 \<le> s" "s < numNodos g" and p: "pmax \<noteq> - 1" "pmax \<le> 0"
  shows "BFS g s pmax = Some ([s], 1)"
proof -
  let ?n = "nat (numNodos g)"
  have n: "0 < ?n" "nat s < ?n" using s by auto
  let ?st0 = "\<lparr>marcados = (replicate ?n False)[nat s := True],
               distancias = (replicate ?n (- 1))[nat s := 0],
               cola = (replicate ?n 0)[0 := s],
               resultado = (replicate ?n 0)[0 := s], frente = 0, final = 1, contador = 1\<rparr>"
  let ?st1 = "?st0\<lparr>frente := 1\<rparr>"
  have w: "escribir (replicate ?n (0::int)) 0 s = Some ((replicate ?n 0)[0 := s])"
    "escribir (replicate ?n False) s True = Some ((replicate ?n False)[nat s := True])"
    "escribir (replicate ?n (- 1 :: int)) s 0 = Some ((replicate ?n (- 1))[nat s := 0])"
    using n s by (simp_all add: escribir_def)
  have r1: "leer (cola ?st0) (frente ?st0) = Some s" using n by (simp add: leer_def)
  have r2: "leer (distancias ?st0) s = Some 0" using n s by (simp add: leer_def)
  have fin: "bfs_bucle g pmax ?st1 = Some ?st1"
    by (subst bfs_bucle.simps) simp
  have "bfs_bucle g pmax ?st0 = bfs_bucle g pmax ?st1"
    using r1 r2 p by (subst bfs_bucle.simps) (simp add: Let_def)
  with fin have b: "bfs_bucle g pmax ?st0 = Some ?st1" by simp
  have c: "copiar (resultado ?st1) 0 (contador ?st1) (replicate (nat (contador ?st1)) 0) = Some [s]"
    using n by (subst copiar_eq) (auto simp: take_Suc_conv_app_nth)
  show ?thesis
    using s w b c by (simp add: BFS_def Let_def)
qed

text \<open>
  Claim C7. For every graph, built or not, and every node id outside \<open>[0, numNodos)\<close>,
  negative ids included, each query gives its neutral result and is defined (no access
  outside an array): \<open>obtenerGradoSalida\<close> and \<open>obtenerGradoEntrada\<close> return 0, and
  \<open>getVecinos\<close>, \<open>BFS\<close> (for any depth bound) and \<open>DFS\<close> return the empty sequence
  with count 0.
\<close>

theorem nodo_fuera_de_rango:
  assumes "nodo < 0 \<or> numNodos g \<le> nodo"
  shows "obtenerGradoSalida g nodo = Some 0 \<and> obtenerGradoEntrada g nodo = Some 0 \<and>
         getVecinos g nodo = Some ([], 0) \<and> BFS g nodo profundidadMax = Some ([], 0) \<and>
         DFS g nodo = Some ([], 0)"
  using assms
  by (auto simp: obtenerGradoSalida_def obtenerGradoEntrada_def getVecinos_def BFS_def DFS_def)

theorem nodo_fuera_de_rango_witness:
  "(99 < (0::int) \<or> numNodos grafo_ejemplo \<le> 99) \<and>
   cargarDatos GrafoDisperso (Some ejemplo) = Some (True, grafo_ejemplo) \<and>
   obtenerGradoSalida grafo_ejemplo 99 = Some 0 \<and> obtenerGradoEntrada grafo_ejemplo 99 = Some 0 \<and>
   getVecinos grafo_ejemplo 99 = Some ([], 0) \<and> BFS grafo_ejemplo 99 (- 1) = Some ([], 0) \<and>
   DFS grafo_ejemplo 99 = Some ([], 0)"
proof -
  have h: "99 < (0::int) \<or> numNodos grafo_ejemplo \<le> 99" by (simp add: grafo_ejemplo_def)
  from nodo_fuera_de_rango[OF h, of "- 1"] h cargar_ejemplo show ?thesis by blast
qed

text \<open>
  Claim C10. For every graph and every start node in \<open>[0, numNodos)\<close>, \<open>BFS\<close> with a
  negative depth bound other than \<open>-1\<close> returns exactly the one-element sequence
  \<open>[nodoInicio]\<close>, the same result as for the bound 0: only \<open>-1\<close> means unbounded.
\<close>

theorem BFS_profundidad_negativa:
  assumes "0 \<le> nodoInicio" "nodoInicio < numNodos g" "profundidadMax < - 1"
  shows "BFS g nodoInicio profundidadMax = Some ([nodoInicio], 1) \<and>
         BFS g nodoInicio profundidadMax = BFS g nodoInicio 0"
  using BFS_sin_expandir[OF assms(1,2), of profundidadMax] BFS_sin_expandir[OF assms(1,2), of 0]
    assms(3)
  by simp

theorem BFS_profundidad_negativa_witness:
  "cargarDatos GrafoDisperso (Some ejemplo) = Some (True, grafo_ejemplo) \<and>
   (0::int) \<le> 0 \<and> 0 < numNodos grafo_ejemplo \<and> (- 2 :: int) < - 1 \<and>
   BFS grafo_ejemplo 0 (- 2) = Some ([0], 1) \<and> BFS grafo_ejemplo 0 (- 2) = BFS grafo_ejemplo 0 0"
proof -
  have h: "(0::int) \<le> 0" "0 < numNodos grafo_ejemplo" "(- 2 :: int) < - 1"
    by (simp_all add: grafo_ejemplo_def)
  from BFS_profundidad_negativa[OF h] h cargar_ejemplo show ?thesis by blast
qed

text \<open>
  Claim C9. Loading the edge list \<open>[(0,1),(0,2),(1,2),(2,0)]\<close> gives 3 nodes and 4 edges;
  the out-degrees of the nodes 0, 1, 2 are 2, 1, 1 and their in-degrees 1, 1, 2;
  \<open>BFS(0, -1)\<close> and \<open>DFS(0)\<close> both return \<open>[0, 1, 2]\<close>; and
  \<open>obtenerNodoMayorGrado\<close> returns node 0 with degree 2.
\<close>

theorem escenario_concreto:
  "cargarDatos GrafoDisperso (Some [(0, 1), (0, 2), (1, 2), (2, 0)]) = Some (True, grafo_ejemplo) \<and>
   numNodos grafo_ejemplo = 3 \<and> numAristas grafo_ejemplo = 4 \<and>
   map (obtenerGradoSalida grafo_ejemplo) [0, 1, 2] = [Some 2, Some 1, Some 1] \<and>
   map (obtenerGradoEntrada grafo_ejemplo) [0, 1, 2] = [Some 1, Some 1, Some 2] \<and>
   BFS grafo_ejemplo 0 (- 1) = Some ([0, 1, 2], 3) \<and>
   DFS grafo_ejemplo 0 = Some ([0, 1, 2], 3) \<and>
   obtenerNodoMayorGrado grafo_ejemplo = Some (0, 2)"
proof (intro conjI)
  show "cargarDatos GrafoDisperso (Some [(0, 1), (0, 2), (1, 2), (2, 0)]) = Some (True, grafo_ejemplo)"
    using cargar_ejemplo by (simp add: ejemplo_def)
  show "numNodos grafo_ejemplo = 3" "numAristas grafo_ejemplo = 4"
    by (simp_all add: grafo_ejemplo_def)
  show "map (obtenerGradoSalida grafo_ejemplo) [0, 1, 2] = [Some 2, Some 1, Some 1]"
    unfolding grafo_ejemplo_def by code_simp
  show "map (obtenerGradoEntrada grafo_ejemplo) [0, 1, 2] = [Some 1, Some 1, Some 2]"
    unfolding grafo_ejemplo_def by code_simp
  show "BFS grafo_ejemplo 0 (- 1) = Some ([0, 1, 2], 3)"
    unfolding grafo_ejemplo_def by code_simp
  show "DFS grafo_ejemplo 0 = Some ([0, 1, 2], 3)"
    unfolding grafo_ejemplo_def by code_simp
  show "obtenerNodoMayorGrado grafo_ejemplo = Some (0, 2)"
    unfolding grafo_ejemplo_def by code_simp
qed

section \<open>The invariants of a load\<close>

lemma construido:
  assumes "\<forall>p\<in>set ps. 0 \<le> fst p \<and> 0 \<le> snd p" and "cargarDatos g0 (Some ps) = Some (ok, g)"
  shows "ok" and "g = grafo_de g0 ps"
  using cargado[OF assms(2)] by auto

lemma sorted_row_ptr_grafo_de: "sorted (row_ptr (grafo_de g ps))"
proof -
  have "row_ptr (grafo_de g ps) ! i \<le> row_ptr (grafo_de g ps) ! j"
    if "i \<le> j" "j < length (row_ptr (grafo_de g ps))" for i j
  proof -
    from that have "j \<le> nat (nodos_de ps)" "i \<le> nat (nodos_de ps)" by auto
    then show ?thesis
      using length_filas_hasta_mono[OF that(1), of ps] by (simp add: row_ptr_grafo_de)
  qed
  then show ?thesis by (simp add: sorted_iff_nth_mono)
qed

lemma set_filas_hasta: "v \<in> set (filas_hasta ps n) \<longleftrightarrow> (\<exists>k<n. (int k, v) \<in> set ps)"
  by (auto simp: filas_hasta_def set_fila_de)

lemma column_indices_grafo_de:
  assumes "\<forall>p\<in>set ps. 0 \<le> snd p" and "c \<in> set (column_indices (grafo_de g ps))"
  shows "0 \<le> c \<and> c < numNodos (grafo_de g ps)"
proof -
  from assms(2) obtain k where "(int k, c) \<in> set ps" by (auto simp: set_filas_hasta)
  with assms(1) nodos_de_cotas(3)[of "(int k, c)" ps] show ?thesis by auto
qed

lemma grados_grafo_de:
  "map (obtenerGradoSalida (grafo_de g ps)) (map int [0..<nat (nodos_de ps)])
     = map Some (map (\<lambda>i. int (length (fila_de ps (int i)))) [0..<nat (nodos_de ps)])"
  by (simp add: obtenerGradoSalida_grafo_de)

lemma suma_grados:
  "sum_list (map (\<lambda>i. int (length (fila_de ps (int i)))) [0..<n]) = int (length (filas_hasta ps n))"
  by (simp add: length_filas_hasta_sum interv_sum_list_conv_sum_set_nat)

text \<open>
  Claim C1. For every graph that \<open>cargarDatos\<close> builds from a list of pairs of non-negative
  integers: \<open>row_ptr\<close> has \<open>numNodos + 1\<close> entries, starts with 0, ends with \<open>numAristas\<close>
  and is non-decreasing; \<open>column_indices\<close> and \<open>values\<close> have \<open>numAristas\<close> entries, every
  column index lies in \<open>[0, numNodos)\<close> and every value is 1; and the out-degrees
  \<open>obtenerGradoSalida(i)\<close> of the nodes \<open>i\<close> in \<open>[0, numNodos)\<close> add up to \<open>numAristas\<close>.
\<close>

theorem invariantes_CSR:
  assumes "\<forall>p\<in>set ps. 0 \<le> fst p \<and> 0 \<le> snd p"
    and "cargarDatos g0 (Some ps) = Some (ok, g)"
  shows "length (row_ptr g) = nat (numNodos g) + 1 \<and> row_ptr g ! 0 = 0 \<and>
         row_ptr g ! nat (numNodos g) = numAristas g \<and> sorted (row_ptr g) \<and>
         length (column_indices g) = nat (numAristas g) \<and>
         (\<forall>c\<in>set (column_indices g). 0 \<le> c \<and> c < numNodos g) \<and>
         length (values_csr g) = nat (numAristas g) \<and> (\<forall>v\<in>set (values_csr g). v = 1) \<and>
         (\<exists>grados. map (obtenerGradoSalida g) (map int [0..<nat (numNodos g)]) = map Some grados \<and>
                   sum_list grados = numAristas g)"
proof -
  let ?n = "nat (nodos_de ps)"
  from construido[OF assms] have g: "g = grafo_de g0 ps" by simp
  have rng: "\<forall>p\<in>set ps. 0 \<le> fst p \<and> fst p < int ?n"
    using assms(1) nodos_de_cotas(1)[of ps] nodos_de_cotas(2)[of _ ps] by auto
  have len: "length (filas_hasta ps ?n) = length ps" by (rule length_filas_hasta[OF rng])
  have 1: "length (row_ptr g) = nat (numNodos g) + 1" by (simp add: g)
  have 2: "row_ptr g ! 0 = 0" using row_ptr_grafo_de[of 0 ps g0] by (simp add: g filas_hasta_def)
  have 3: "row_ptr g ! nat (numNodos g) = numAristas g"
    using row_ptr_grafo_de[of ?n ps g0] len by (simp add: g)
  have 4: "sorted (row_ptr g)" unfolding g by (rule sorted_row_ptr_grafo_de)
  have 5: "length (column_indices g) = nat (numAristas g)" using len by (simp add: g)
  have 6: "\<forall>c\<in>set (column_indices g). 0 \<le> c \<and> c < numNodos g"
    unfolding g using column_indices_grafo_de[of ps _ g0] assms(1) by blast
  have 7: "length (values_csr g) = nat (numAristas g)" "\<forall>v\<in>set (values_csr g). v = 1"
    by (simp_all add: g)
  have 8: "\<exists>grados. map (obtenerGradoSalida g) (map int [0..<nat (numNodos g)]) = map Some grados \<and>
                   sum_list grados = numAristas g"
  proof (intro exI conjI)
    show "map (obtenerGradoSalida g) (map int [0..<nat (numNodos g)])
      = map Some (map (\<lambda>i. int (length (fila_de ps (int i)))) [0..<?n])"
      unfolding g using grados_grafo_de[of g0 ps] by simp
    show "sum_list (map (\<lambda>i. int (length (fila_de ps (int i)))) [0..<?n]) = numAristas g"
      using suma_grados[of ps ?n] len by (simp add: g)
  qed
  from 1 2 3 4 5 6 7 8 show ?thesis by blast
qed

theorem invariantes_CSR_witness:
  "length (row_ptr grafo_ejemplo) = nat (numNodos grafo_ejemplo) + 1 \<and>
   row_ptr grafo_ejemplo ! 0 = 0 \<and>
   row_ptr grafo_ejemplo ! nat (numNodos grafo_ejemplo) = numAristas grafo_ejemplo \<and>
   sorted (row_ptr grafo_ejemplo) \<and>
   length (column_indices grafo_ejemplo) = nat (numAristas grafo_ejemplo) \<and>
   length (values_csr grafo_ejemplo) = nat (numAristas grafo_ejemplo)"
proof -
  have h: "\<forall>p\<in>set ejemplo. 0 \<le> fst p \<and> 0 \<le> snd p" by (simp add: ejemplo_def)
  from invariantes_CSR[OF h cargar_ejemplo] show ?thesis by blast
qed

section \<open>Neighbours, loading and the node of greatest degree\<close>

lemma getVecinos_grafo_de_nat:
  assumes k: "k < nat (nodos_de ps)"
  shows "getVecinos (grafo_de g ps) (int k)
    = Some (fila_de ps (int k), int (length (fila_de ps (int k))))"
proof -
  let ?n = "nat (nodos_de ps)"
  let ?G = "grafo_de g ps"
  let ?R = "fila_de ps (int k)"
  let ?L = "length (filas_hasta ps k)"
  have rg: "int k < nodos_de ps" using k by linarith
  have sk: "Suc k \<le> ?n" "k \<le> ?n" using k by auto
  have nk: "nat (int k + 1) = Suc k" by simp
  have r1: "leer (row_ptr ?G) (int k) = Some (int ?L)"
    using row_ptr_grafo_de[OF sk(2), of g] rg by (simp add: leer_def)
  have r2: "leer (row_ptr ?G) (int k + 1) = Some (int ?L + int (length ?R))"
    using row_ptr_grafo_de[OF sk(1), of g] rg nk by (simp add: leer_def filas_hasta_Suc)
  show ?thesis
  proof (cases "?R = []")
    case True
    with r1 r2 rg show ?thesis by (simp add: getVecinos_def)
  next
    case False
    have le: "?L + length ?R \<le> length (column_indices ?G)"
      using length_filas_hasta_mono[OF sk(1), of ps] by (simp add: filas_hasta_Suc)
    have "copiar (column_indices ?G) (int ?L) (int (length ?R)) (replicate (nat (int (length ?R))) 0)
        = Some (take (nat (int (length ?R))) (drop (nat (int ?L)) (column_indices ?G))
                @ drop (nat (int (length ?R))) (replicate (nat (int (length ?R))) 0))"
      using le by (intro copiar_eq) simp_all
    also have "\<dots> = Some ?R"
      using rebanada_grafo_de[OF k] by simp
    finally show ?thesis using False r1 r2 rg by (simp add: getVecinos_def)
  qed
qed

lemma getVecinos_grafo_de:
  assumes "0 \<le> nodo" "nodo < nodos_de ps"
  shows "getVecinos (grafo_de g ps) nodo = Some (fila_de ps nodo, int (length (fila_de ps nodo)))"
proof -
  have "nat nodo < nat (nodos_de ps)" using assms by linarith
  from getVecinos_grafo_de_nat[OF this, of g] assms(1) show ?thesis by simp
qed

lemma rebanada_row_ptr:
  assumes "0 \<le> nodo" "nodo < nodos_de ps"
  shows "take (nat (row_ptr (grafo_de g ps) ! nat (nodo + 1) - row_ptr (grafo_de g ps) ! nat nodo))
             (drop (nat (row_ptr (grafo_de g ps) ! nat nodo)) (column_indices (grafo_de g ps)))
         = fila_de ps nodo"
proof -
  let ?k = "nat nodo"
  have k: "?k < nat (nodos_de ps)" using assms by linarith
  have sk: "Suc ?k \<le> nat (nodos_de ps)" "?k \<le> nat (nodos_de ps)" using k by auto
  have nk: "nat (nodo + 1) = Suc ?k" using assms by simp
  have ik: "int ?k = nodo" using assms by simp
  have a: "row_ptr (grafo_de g ps) ! ?k = int (length (filas_hasta ps ?k))"
    by (rule row_ptr_grafo_de[OF sk(2)])
  have b: "row_ptr (grafo_de g ps) ! Suc ?k
      = int (length (filas_hasta ps ?k)) + int (length (fila_de ps nodo))"
    using row_ptr_grafo_de[OF sk(1), of g] ik by (simp add: filas_hasta_Suc)
  show ?thesis
    unfolding nk a b using rebanada_grafo_de[OF k] ik by simp
qed

text \<open>
  Claim C6. For every graph that a load builds and every node in \<open>[0, numNodos)\<close>, \<open>getVecinos\<close>
  returns exactly the slice \<open>column_indices[row_ptr[node] .. row_ptr[node+1])\<close>, in order
  (it is the row of the node: the destinations of its pairs in file order), so its
  length is \<open>obtenerGradoSalida(node)\<close>; for a node outside \<open>[0, numNodos)\<close> it returns
  the empty sequence.
\<close>

theorem getVecinos_rebanada:
  assumes "cargarDatos g0 (Some ps) = Some (ok, g)"
  shows "(0 \<le> nodo \<and> nodo < numNodos g \<longrightarrow>
            (\<exists>vecinos. getVecinos g nodo = Some (vecinos, int (length vecinos)) \<and>
               vecinos = take (nat (row_ptr g ! nat (nodo + 1) - row_ptr g ! nat nodo))
                              (drop (nat (row_ptr g ! nat nodo)) (column_indices g)) \<and>
               vecinos = fila_de ps nodo \<and>
               obtenerGradoSalida g nodo = Some (int (length vecinos)))) \<and>
         (nodo < 0 \<or> numNodos g \<le> nodo \<longrightarrow> getVecinos g nodo = Some ([], 0))"
proof (intro conjI impI)
  from cargado[OF assms] have g: "g = grafo_de g0 ps" by simp
  assume "0 \<le> nodo \<and> nodo < numNodos g"
  then have nd: "0 \<le> nodo" "nodo < nodos_de ps" by (simp_all add: g)
  have "take (nat (row_ptr g ! nat (nodo + 1) - row_ptr g ! nat nodo))
             (drop (nat (row_ptr g ! nat nodo)) (column_indices g)) = fila_de ps nodo"
    unfolding g by (rule rebanada_row_ptr[OF nd])
  then show "\<exists>vecinos. getVecinos g nodo = Some (vecinos, int (length vecinos)) \<and>
               vecinos = take (nat (row_ptr g ! nat (nodo + 1) - row_ptr g ! nat nodo))
                              (drop (nat (row_ptr g ! nat nodo)) (column_indices g)) \<and>
               vecinos = fila_de ps nodo \<and>
               obtenerGradoSalida g nodo = Some (int (length vecinos))"
    using getVecinos_grafo_de[OF nd, of g0] obtenerGradoSalida_grafo_de[OF nd, of g0]
    by (simp add: g)
next
  assume "nodo < 0 \<or> numNodos g \<le> nodo"
  then show "getVecinos g nodo = Some ([], 0)" by (auto simp: getVecinos_def)
qed

theorem getVecinos_rebanada_witness:
  "getVecinos grafo_ejemplo 0 = Some ([1, 2], 2) \<and> obtenerGradoSalida grafo_ejemplo 0 = Some 2 \<and>
   getVecinos grafo_ejemplo 3 = Some ([], 0)"
proof -
  have f: "fila_de ejemplo 0 = [1, 2]" by (simp add: ejemplo_def fila_de_def)
  have n: "numNodos grafo_ejemplo = 3" by (simp add: grafo_ejemplo_def)
  have p: "0 \<le> (0::int) \<and> 0 < numNodos grafo_ejemplo" by (simp add: n)
  from getVecinos_rebanada[OF cargar_ejemplo, of 0, THEN conjunct1, THEN mp, OF p]
  obtain vs where
    "getVecinos grafo_ejemplo 0 = Some (vs, int (length vs))" "vs = fila_de ejemplo 0"
    "obtenerGradoSalida grafo_ejemplo 0 = Some (int (length vs))"
    by blast
  moreover from getVecinos_rebanada[OF cargar_ejemplo, of 3] n
  have "getVecinos grafo_ejemplo 3 = Some ([], 0)" by simp
  ultimately show ?thesis using f by simp
qed

lemma nodos_de_acotado:
  assumes "\<forall>p\<in>set ps. 0 \<le> fst p \<and> 2 * int (length ps) + max (fst p) (snd p) + 2 \<le> INT_MAX"
  shows "2 * int (length ps) + nodos_de ps + 1 \<le> INT_MAX"
proof (cases "ps = []")
  case True
  then show ?thesis by (simp add: nodos_de_def INT_MAX_def)
next
  case False
  then obtain q where q: "q \<in> set ps" by (cases ps) auto
  let ?S = "insert (- 1) (fst ` set ps \<union> snd ` set ps)"
  have "Max ?S \<in> ?S" by (intro Max_in) auto
  then consider "Max ?S = - 1" | r where "r \<in> set ps" "Max ?S = fst r \<or> Max ?S = snd r"
    by auto
  then have "2 * int (length ps) + Max ?S + 2 \<le> INT_MAX"
  proof cases
    case 1
    from assms q have "2 * int (length ps) + max (fst q) (snd q) + 2 \<le> INT_MAX" "0 \<le> fst q"
      by auto
    with 1 show ?thesis by simp
  next
    case 2
    from assms 2(1) have "2 * int (length ps) + max (fst r) (snd r) + 2 \<le> INT_MAX" by auto
    with 2(2) show ?thesis by auto
  qed
  then show ?thesis by (simp add: nodos_de_def)
qed

text \<open>
  Claim C8, as the code has it. \<open>cargarDatos\<close> returns failure exactly when the file cannot
  be opened. A file that opens loads successfully when every origin id in it is
  non-negative and twice the number of its pairs plus its greatest id plus two is at most
  \<open>INT_MAX = 2147483647\<close>; in particular a file from which no pair parses gives a loaded
  graph with \<open>numNodos = 0\<close> and \<open>numAristas = 0\<close>.
  (A pair with a negative origin makes the second pass index \<open>contadores\<close> below its
  first entry. The bound keeps every \<^verbatim>\<open>int\<close> that the method computes in range: the
  count of the pairs, \<^verbatim>\<open>nodoMaximo + 1\<close>, the doubled capacities, \<^verbatim>\<open>numNodos + 1\<close>, and
  also the entry count \<^verbatim>\<open>numAristas * 2 + numNodos + 1\<close> of the estimate that it prints.)
\<close>

theorem cargarDatos_exito:
  "((\<exists>g'. cargarDatos g arch = Some (False, g')) \<longleftrightarrow> arch = None) \<and>
   ((\<forall>p\<in>set ps. 0 \<le> fst p \<and> 2 * int (length ps) + max (fst p) (snd p) + 2 \<le> INT_MAX)
      \<longrightarrow> (\<exists>g'. cargarDatos g (Some ps) = Some (True, g'))) \<and>
   (\<exists>g'. cargarDatos g (Some []) = Some (True, g') \<and> numNodos g' = 0 \<and> numAristas g' = 0)"
proof (intro conjI impI)
  show "(\<exists>g'. cargarDatos g arch = Some (False, g')) \<longleftrightarrow> arch = None"
    by (cases arch) (auto simp: cargarDatos_def Let_def split: prod.splits Option.bind_splits)
  show "\<exists>g'. cargarDatos g (Some ps) = Some (True, g')"
    if h: "\<forall>p\<in>set ps. 0 \<le> fst p \<and> 2 * int (length ps) + max (fst p) (snd p) + 2 \<le> INT_MAX"
  proof -
    from h have "\<forall>p\<in>set ps. 0 \<le> fst p" by simp
    from cargarDatos_grafo_de[OF this nodos_de_acotado[OF h]] show ?thesis by blast
  qed
  have "cargarDatos g (Some []) = Some (True, grafo_de g [])"
    by (rule cargarDatos_grafo_de) (simp_all add: nodos_de_def INT_MAX_def)
  then show "\<exists>g'. cargarDatos g (Some []) = Some (True, g') \<and> numNodos g' = 0 \<and> numAristas g' = 0"
    by (simp add: nodos_de_def)
qed

theorem cargarDatos_exito_witness:
  "\<exists>g'. cargarDatos GrafoDisperso (Some ejemplo) = Some (True, g')"
proof -
  have h: "\<forall>p\<in>set ejemplo.
      0 \<le> fst p \<and> 2 * int (length ejemplo) + max (fst p) (snd p) + 2 \<le> INT_MAX"
    by (simp add: ejemplo_def INT_MAX_def)
  from cargarDatos_exito[of GrafoDisperso None ejemplo] h show ?thesis by blast
qed

text \<open>
  The claim as it was written fails: the file \<^verbatim>\<open>-1 0\<close> opens, the first pass finds one
  node, and the second pass reads \<open>contadores[-1]\<close>.
\<close>

theorem cargarDatos_origen_negativo:
  "cargarDatos GrafoDisperso (Some [(- 1, 0)]) = None"
  by code_simp

text \<open>
  Non-negative origins alone do not make a file load either: on the file
  \<^verbatim>\<open>2147483647 0\<close> the sum \<^verbatim>\<open>nodoMaximo + 1\<close> leaves the range of \<^verbatim>\<open>int\<close>.
\<close>

lemma cargarDatos_id_maximo:
  "cargarDatos GrafoDisperso (Some [(2147483647, 0)]) = None"
  by code_simp

lemma mayor_grado_bucle:
  assumes n: "0 \<le> numNodos g"
    and deg: "\<And>i. 0 \<le> i \<Longrightarrow> i < numNodos g \<Longrightarrow> obtenerGradoSalida g i = Some (deg i)"
  shows "\<exists>nm gm. obtenerNodoMayorGrado g = Some (nm, gm) \<and> 0 \<le> gm \<and>
           (\<forall>i. 0 \<le> i \<and> i < numNodos g \<longrightarrow> deg i \<le> gm) \<and>
           (nm = - 1 \<and> gm = 0 \<or>
            0 \<le> nm \<and> nm < numNodos g \<and> deg nm = gm \<and> 0 < gm \<and>
            (\<forall>i. 0 \<le> i \<and> i < nm \<longrightarrow> deg i < gm))"
proof -
  let ?c = "\<lambda>i (nodoMaximo, gradoMaximo). do {
          grado \<leftarrow> obtenerGradoSalida g i;
          Some (if grado > gradoMaximo then (i, grado) else (nodoMaximo, gradoMaximo)) }"
  let ?I = "\<lambda>j s. case s of (nm, gm) \<Rightarrow> 0 \<le> gm \<and>
           (\<forall>i. 0 \<le> i \<and> i < j \<longrightarrow> deg i \<le> gm) \<and>
           (nm = - 1 \<and> gm = 0 \<or>
            0 \<le> nm \<and> nm < j \<and> deg nm = gm \<and> 0 < gm \<and>
            (\<forall>i. 0 \<le> i \<and> i < nm \<longrightarrow> deg i < gm))"
  have "\<exists>s'. bucle_for 0 (numNodos g) ?c (- 1, 0) = Some s' \<and> ?I (numNodos g) s'"
  proof (rule bucle_for_inv[where I = ?I])
    show "0 \<le> numNodos g" by fact
    show "?I 0 (- 1, 0)" by simp
    fix j t assume j: "0 \<le> j" "j < numNodos g" and t: "?I j t"
    obtain nm gm where teq: "t = (nm, gm)" by (cases t)
    from t teq have I: "0 \<le> gm" "\<forall>i. 0 \<le> i \<and> i < j \<longrightarrow> deg i \<le> gm"
      "nm = - 1 \<and> gm = 0 \<or>
            0 \<le> nm \<and> nm < j \<and> deg nm = gm \<and> 0 < gm \<and>
            (\<forall>i. 0 \<le> i \<and> i < nm \<longrightarrow> deg i < gm)"
      by auto
    show "\<exists>t'. ?c j t = Some t' \<and> ?I (j + 1) t'"
    proof (cases "deg j > gm")
      case True
      have st: "?c j t = Some (j, deg j)" using deg[OF j] teq True by simp
      have a: "\<forall>i. 0 \<le> i \<and> i < j + 1 \<longrightarrow> deg i \<le> deg j"
      proof (intro allI impI)
        fix i assume "0 \<le> i \<and> i < j + 1"
        then have "i = j \<or> (0 \<le> i \<and> i < j)" by linarith
        with I(2) True show "deg i \<le> deg j" by force
      qed
      have b: "\<forall>i. 0 \<le> i \<and> i < j \<longrightarrow> deg i < deg j" using I(2) True by force
      have c: "0 \<le> deg j" "0 < deg j" using True I(1) by linarith+
      have "?I (j + 1) (j, deg j)"
        unfolding prod.case using a b c j by (intro conjI disjI2) simp_all
      with st show ?thesis by blast
    next
      case False
      have st: "?c j t = Some (nm, gm)" using deg[OF j] teq False by simp
      have a: "\<forall>i. 0 \<le> i \<and> i < j + 1 \<longrightarrow> deg i \<le> gm"
      proof (intro allI impI)
        fix i assume "0 \<le> i \<and> i < j + 1"
        then have "i = j \<or> (0 \<le> i \<and> i < j)" by linarith
        with I(2) False show "deg i \<le> gm" by force
      qed
      from I(3) have b: "nm = - 1 \<and> gm = 0 \<or>
            0 \<le> nm \<and> nm < j + 1 \<and> deg nm = gm \<and> 0 < gm \<and>
            (\<forall>i. 0 \<le> i \<and> i < nm \<longrightarrow> deg i < gm)"
        by (elim disjE conjE) (simp_all)
      have "?I (j + 1) (nm, gm)"
        unfolding prod.case using a b I(1) by (intro conjI)
      with st show ?thesis by blast
    qed
  qed
  then obtain s' where s': "bucle_for 0 (numNodos g) ?c (- 1, 0) = Some s'" "?I (numNodos g) s'"
    by blast
  obtain nm gm where "s' = (nm, gm)" by (cases s')
  with s' show ?thesis unfolding obtenerNodoMayorGrado_def prod.case by blast
qed

text \<open>
  Claim C3. For every graph that a load builds with \<open>numNodos > 0\<close>, \<open>obtenerNodoMayorGrado\<close> returns
  the smallest node id whose out-degree is the greatest out-degree of the nodes in
  \<open>[0, numNodos)\<close>, and its out-parameter is that degree: no node has a greater
  out-degree, and every node with a smaller id has a strictly smaller one.
\<close>

theorem nodo_mayor_grado:
  assumes "cargarDatos g0 (Some ps) = Some (ok, g)"
    and "0 < numNodos g"
  shows "\<exists>nodoMaximo gradoMaximo.
           obtenerNodoMayorGrado g = Some (nodoMaximo, gradoMaximo) \<and>
           0 \<le> nodoMaximo \<and> nodoMaximo < numNodos g \<and>
           obtenerGradoSalida g nodoMaximo = Some gradoMaximo \<and>
           (\<forall>i. 0 \<le> i \<and> i < numNodos g \<longrightarrow>
              (\<exists>d. obtenerGradoSalida g i = Some d \<and> d \<le> gradoMaximo \<and>
                   (i < nodoMaximo \<longrightarrow> d < gradoMaximo)))"
proof -
  from cargado[OF assms(1)] have g: "g = grafo_de g0 ps" and orig: "\<forall>p\<in>set ps. 0 \<le> fst p"
    by simp_all
  let ?deg = "\<lambda>i. int (length (fila_de ps i))"
  have deg: "obtenerGradoSalida g i = Some (?deg i)" if "0 \<le> i" "i < numNodos g" for i
    using that obtenerGradoSalida_grafo_de[of i ps g0] by (simp add: g)
  from assms(2) have "ps \<noteq> []" by (auto simp: g nodos_de_def)
  then obtain p where p: "p \<in> set ps" by (cases ps) auto
  with orig nodos_de_cotas(2)[OF p] have o: "0 \<le> fst p" "fst p < numNodos g"
    by (auto simp: g)
  have "snd p \<in> set (fila_de ps (fst p))" using p by (simp add: set_fila_de)
  then have pos: "0 < ?deg (fst p)" by (cases "fila_de ps (fst p)") auto
  have n0: "0 \<le> numNodos g" using assms(2) by simp
  from mayor_grado_bucle[of g ?deg, OF n0 deg] obtain nm gm where
    r: "obtenerNodoMayorGrado g = Some (nm, gm)" and
    mx: "\<forall>i. 0 \<le> i \<and> i < numNodos g \<longrightarrow> ?deg i \<le> gm" and
    c: "nm = - 1 \<and> gm = 0 \<or>
            0 \<le> nm \<and> nm < numNodos g \<and> ?deg nm = gm \<and> 0 < gm \<and>
            (\<forall>i. 0 \<le> i \<and> i < nm \<longrightarrow> ?deg i < gm)"
    by blast
  from mx[rule_format, of "fst p"] o pos have "0 < gm" by linarith
  with c have nm: "0 \<le> nm" "nm < numNodos g" "?deg nm = gm"
    and lt: "\<forall>i. 0 \<le> i \<and> i < nm \<longrightarrow> ?deg i < gm"
    by auto
  have dnm: "obtenerGradoSalida g nm = Some gm" using deg[OF nm(1,2)] nm(3) by simp
  have todos: "\<forall>i. 0 \<le> i \<and> i < numNodos g \<longrightarrow>
              (\<exists>d. obtenerGradoSalida g i = Some d \<and> d \<le> gm \<and> (i < nm \<longrightarrow> d < gm))"
  proof (intro allI impI)
    fix i assume i: "0 \<le> i \<and> i < numNodos g"
    then have "obtenerGradoSalida g i = Some (?deg i)" using deg by simp
    moreover have "?deg i \<le> gm" using mx i by blast
    moreover have "i < nm \<longrightarrow> ?deg i < gm" using lt i by blast
    ultimately show "\<exists>d. obtenerGradoSalida g i = Some d \<and> d \<le> gm \<and> (i < nm \<longrightarrow> d < gm)"
      by blast
  qed
  from r nm(1,2) dnm todos show ?thesis by blast
qed

theorem nodo_mayor_grado_witness:
  "obtenerNodoMayorGrado grafo_ejemplo = Some (0, 2) \<and> obtenerGradoSalida grafo_ejemplo 0 = Some 2"
proof -
  have n: "0 < numNodos grafo_ejemplo" by (simp add: grafo_ejemplo_def)
  from nodo_mayor_grado[OF cargar_ejemplo n] obtain nm gm where
    r: "obtenerNodoMayorGrado grafo_ejemplo = Some (nm, gm)"
    and e: "obtenerGradoSalida grafo_ejemplo nm = Some gm"
    by blast
  have c: "obtenerNodoMayorGrado grafo_ejemplo = Some (0, 2)"
    unfolding grafo_ejemplo_def by code_simp
  from r c have "nm = 0" "gm = 2" by simp_all
  with r e show ?thesis by simp
qed

section \<open>Breadth-first search\<close>

















lemma frente_upd [simp]:
  "encolados (st\<lparr>frente := x\<rparr>) = encolados st"
  "dist_de (st\<lparr>frente := x\<rparr>) = dist_de st"
  by (simp_all add: encolados_def dist_de_def fun_eq_iff)

lemma frente_upd_inv [simp]:
  "cerrado g pmax (st\<lparr>frente := x\<rparr>) = cerrado g pmax st"
  "bfs_niveles g s pmax (st\<lparr>frente := x\<rparr>) = bfs_niveles g s pmax st"
  by (simp_all add: cerrado_def bfs_niveles_def fun_eq_iff)












section \<open>The edges of a built graph\<close>




text \<open>
  The traversals follow the column indices, so they need the destinations to be node
  ids: a file with a negative destination loads, and a search that reaches that entry
  indexes \<open>marcados\<close> below its first entry.
\<close>

lemma BFS_destino_negativo:
  "cargarDatos GrafoDisperso (Some [(0, - 1)])
     = Some (True, \<lparr>numNodos = 1, numAristas = 1, esDirigido = True, values_csr = [1],
                    column_indices = [- 1], row_ptr = [0, 1]\<rparr>) \<and>
   BFS \<lparr>numNodos = 1, numAristas = 1, esDirigido = True, values_csr = [1],
        column_indices = [- 1], row_ptr = [0, 1]\<rparr> 0 (- 1) = None"
  by code_simp



section \<open>Depth-first search\<close>










section \<open>One round of the breadth-first loop\<close>








end
